theory Spec2Isabelle
  imports Complex_Main
begin

section \<open>Accumulate--release simulation: data model\<close>

text \<open>
  The Python package \<open>arg_lab\<close> steps a scalar accumulator forward with explicit Euler
  steps, resets it when a threshold is reached and records one event per reset.

  Conventions of the embedding.
  \<^item> A Python \<open>float\<close> is a \<open>real\<close>: rounding, infinities and not-a-number inputs are outside
    the model. Where the code itself stores \<open>np.nan\<close> into a result, that result has type
    \<open>real option\<close> and \<open>None\<close> stands for not-a-number.
  \<^item> A raised exception is the left injection of a sum; \<open>py_error\<close> names the exception
    class.
  \<^item> A numpy array written by index is a list updated with \<open>xs[i := v]\<close>; every index the
    loops use is in range.
  \<^item> The numpy generator is a stream of raw variates, consumed one per call.
\<close>

datatype py_error = ValueError | AssertionError | IndexError | KeyError | ZeroDivisionError

text \<open>\<open>scenarios.py\<close>: the three frozen dataclasses.\<close>

record ThresholdSpec =
  theta :: real
  reset :: real
  delta_s :: real

text \<open>A segment is a Python \<open>dict\<close> read at the keys \<open>"end"\<close> and \<open>"rate"\<close>.\<close>

type_synonym segment = "string \<rightharpoonup> real"

record DriverSpec =
  type :: string
  rate :: "real option"
  leak :: "real option"
  segments :: "segment list option"
  noise_std :: real

record Scenario =
  scenario_id :: string
  label :: string
  description :: string
  dt :: real
  duration :: real
  initial_state :: real
  driver :: DriverSpec
  thresholds :: "ThresholdSpec list"

text \<open>\<open>simulate.py\<close>: the event record.\<close>

record Event =
  time :: real
  theta :: real
  reset :: real
  delta_s :: real
  state_before :: real
  state_after :: real

text \<open>
  The \<open>pandas.DataFrame\<close> returned by \<open>simulate_cycle\<close>, one list per column, and the same
  table after \<open>simulate_ensemble\<close> has added the column \<open>member\<close>.
\<close>

record frame =
  time :: "real list"
  accumulator :: "real list"
  order_parameter :: "real list"
  driver :: "real list"
  release :: "int list"

record tagged_frame = frame +
  member :: "nat list"

text \<open>\<open>analysis.py\<close>: one row of the cycle table, and the dictionary of the margin.\<close>

record CycleSummary =
  start_time :: real
  end_time :: real
  duration :: "real option"
  ramp_amplitude :: real
  mean_slope :: "real option"
  release_gain :: real
  theta :: real
  reset_level :: real

record viability =
  current_state :: real
  top_threshold :: real
  margin :: real
  relative_margin :: "real option"

section \<open>The numpy collaborators\<close>

text \<open>
  A generator is the stream of what its pending calls will draw: at each position a
  standard normal variate and a raw integer. \<open>rng.normal(scale=s)\<close> scales the normal
  variate by \<open>s\<close> and rejects a negative \<open>s\<close>; \<open>rng.integers(0, 2**32 - 1)\<close> returns an
  integer below \<open>2**32 - 1\<close>. Both advance the stream by one position.
  \<open>np.random.default_rng(seed)\<close> is a parameter \<open>default_rng\<close> of the functions that call
  it; seeds are the naturals numpy accepts, or \<open>None\<close>.
\<close>

type_synonym generator = "nat \<Rightarrow> real \<times> nat"

definition normal :: "generator \<Rightarrow> real \<Rightarrow> py_error + (real \<times> generator)" where
  "normal g scale =
     (if scale < 0 then Inl ValueError
      else Inr (scale * fst (g 0), \<lambda>n. g (Suc n)))"

definition integers :: "generator \<Rightarrow> nat \<times> generator" where
  "integers g = (snd (g 0) mod (2 ^ 32 - 1), \<lambda>n. g (Suc n))"

text \<open>
  \<open>np.linspace(start, stop, num)\<close>: \<open>num\<close> evenly spaced samples with both endpoints;
  a negative \<open>num\<close> is a \<open>ValueError\<close>.
\<close>

definition linspace :: "real \<Rightarrow> real \<Rightarrow> int \<Rightarrow> py_error + real list" where
  "linspace start stop num =
     (if num < 0 then Inl ValueError
      else if num = 1 then Inr [start]
      else Inr (map (\<lambda>i. start + real i * ((stop - start) / real (nat num - 1)))
                  [0..<nat num]))"

section \<open>The drive evaluator\<close>

text \<open>The \<open>for\<close> loop of \<open>_piecewise_rate\<close>: \<open>Inr None\<close> when it falls through.\<close>

fun scan_segments :: "segment list \<Rightarrow> real \<Rightarrow> py_error + real option" where
  "scan_segments [] t = Inr None"
| "scan_segments (seg # rest) t =
     (case seg ''end'' of
        None \<Rightarrow> Inl KeyError
      | Some e \<Rightarrow>
          if t \<le> e then (case seg ''rate'' of None \<Rightarrow> Inl KeyError | Some r \<Rightarrow> Inr (Some r))
          else scan_segments rest t)"

definition piecewise_rate :: "DriverSpec \<Rightarrow> real \<Rightarrow> py_error + real" where
  "piecewise_rate drv t =
     (case segments drv of
        None \<Rightarrow> Inl AssertionError
      | Some segs \<Rightarrow>
          (case scan_segments segs t of
             Inl e \<Rightarrow> Inl e
           | Inr (Some r) \<Rightarrow> Inr r
           | Inr None \<Rightarrow>
               if segs = [] then Inl IndexError
               else (case (last segs) ''rate'' of None \<Rightarrow> Inl KeyError | Some r \<Rightarrow> Inr r)))"

definition driver_derivative :: "DriverSpec \<Rightarrow> real \<Rightarrow> real \<Rightarrow> py_error + real" where
  "driver_derivative drv t state =
     (if type drv = ''leaky'' then
        (case (rate drv, leak drv) of
           (Some a, Some b) \<Rightarrow> Inr (a - b * state)
         | _ \<Rightarrow> Inl ValueError)
      else if type drv = ''linear'' then
        (case rate drv of None \<Rightarrow> Inl ValueError | Some a \<Rightarrow> Inr a)
      else if type drv = ''piecewise'' then piecewise_rate drv t
      else Inl ValueError)"

section \<open>The integrator\<close>

text \<open>The variables the loop of \<open>simulate_cycle\<close> writes.\<close>

record loop_state =
  st_x :: "real list"
  st_order :: "real list"
  st_releases :: "int list"
  st_driver_values :: "real list"
  st_events :: "Event list"
  st_rng :: generator

text \<open>The derivative of one step: the drive, plus a draw when \<open>noise_std > 0\<close>.\<close>

definition noisy_derivative ::
  "DriverSpec \<Rightarrow> real \<Rightarrow> real \<Rightarrow> generator \<Rightarrow> py_error + (real \<times> generator)" where
  "noisy_derivative drv t_prev state g =
     (case driver_derivative drv t_prev state of
        Inl e \<Rightarrow> Inl e
      | Inr derivative \<Rightarrow>
          if noise_std drv > 0 then
            (case normal g (noise_std drv) of
               Inl e \<Rightarrow> Inl e
             | Inr (noise, g') \<Rightarrow> Inr (derivative + noise, g'))
          else Inr (derivative, g))"

text \<open>The inner loop that collects the thresholds reached by \<open>state_next\<close>.\<close>

definition crossed_by :: "ThresholdSpec list \<Rightarrow> real \<Rightarrow> ThresholdSpec list" where
  "crossed_by ths state_next = filter (\<lambda>th. state_next \<ge> ThresholdSpec.theta th) ths"

text \<open>The \<open>Event\<close> built when the threshold \<open>selected\<close> fires.\<close>

definition release_event :: "real \<Rightarrow> ThresholdSpec \<Rightarrow> real \<Rightarrow> Event" where
  "release_event t selected state_next =
     \<lparr>Event.time = t,
      theta = ThresholdSpec.theta selected,
      reset = ThresholdSpec.reset selected,
      delta_s = ThresholdSpec.delta_s selected,
      state_before = state_next,
      state_after = ThresholdSpec.reset selected\<rparr>"

text \<open>The body of the loop at index \<open>idx\<close>.\<close>

definition step ::
  "Scenario \<Rightarrow> real list \<Rightarrow> ThresholdSpec list \<Rightarrow> nat \<Rightarrow> loop_state \<Rightarrow> py_error + loop_state" where
  "step scenario tgrid ths idx s =
     (let t_prev = tgrid ! (idx - 1);
          state = st_x s ! (idx - 1)
      in case noisy_derivative (Scenario.driver scenario) t_prev state (st_rng s) of
           Inl e \<Rightarrow> Inl e
         | Inr (derivative, g) \<Rightarrow>
             let dv = (st_driver_values s)[idx - 1 := derivative];
                 state_next = state + derivative * dt scenario;
                 crossed = crossed_by ths state_next
             in if crossed \<noteq> [] then
                  let selected = last crossed;
                      event = release_event (tgrid ! idx) selected state_next
                  in Inr \<lparr>st_x = (st_x s)[idx := max (ThresholdSpec.reset selected) 0],
                          st_order = (st_order s)
                             [idx := st_order s ! (idx - 1) + ThresholdSpec.delta_s selected],
                          st_releases = (st_releases s)[idx := 1],
                          st_driver_values = dv,
                          st_events = st_events s @ [event],
                          st_rng = g\<rparr>
                else
                  Inr \<lparr>st_x = (st_x s)[idx := max state_next 0],
                       st_order = (st_order s)[idx := st_order s ! (idx - 1)],
                       st_releases = st_releases s,
                       st_driver_values = dv,
                       st_events = st_events s,
                       st_rng = g\<rparr>)"

text \<open>The \<open>for\<close> loop over the indices; an exception ends it.\<close>

fun loop ::
  "Scenario \<Rightarrow> real list \<Rightarrow> ThresholdSpec list \<Rightarrow> nat list \<Rightarrow> loop_state \<Rightarrow> py_error + loop_state" where
  "loop scenario tgrid ths [] s = Inr s"
| "loop scenario tgrid ths (idx # rest) s =
     (case step scenario tgrid ths idx s of
        Inl e \<Rightarrow> Inl e
      | Inr s' \<Rightarrow> loop scenario tgrid ths rest s')"

text \<open>The arrays before the loop: zeros, with the initial state in \<open>x[0]\<close>.\<close>

definition initial_arrays :: "nat \<Rightarrow> real \<Rightarrow> generator \<Rightarrow> loop_state" where
  "initial_arrays n x0 rng =
     \<lparr>st_x = (replicate n 0)[0 := x0],
      st_order = (replicate n 0)[0 := 0],
      st_releases = replicate n 0,
      st_driver_values = replicate n 0,
      st_events = [],
      st_rng = rng\<rparr>"

text \<open>
  \<open>simulate_cycle\<close>. Before the loop: the division by \<open>dt\<close>, the grid (\<open>np.linspace\<close>
  rejects a negative number of samples) and the write to \<open>x[0]\<close> (an \<open>IndexError\<close> in an
  array of length 0). After the loop: the last slot of the driver column is filled from
  the one before it.
\<close>

definition simulate_cycle ::
  "(nat option \<Rightarrow> generator) \<Rightarrow> Scenario \<Rightarrow> nat option \<Rightarrow> py_error + (frame \<times> Event list)" where
  "simulate_cycle default_rng scenario seed =
     (let rng = default_rng seed
      in if dt scenario = 0 then Inl ZeroDivisionError
         else
           let steps = \<lceil>Scenario.duration scenario / dt scenario\<rceil> + 1
           in case linspace 0 (Scenario.duration scenario) steps of
                Inl e \<Rightarrow> Inl e
              | Inr tgrid \<Rightarrow>
                  let n = nat steps
                  in if n = 0 then Inl IndexError
                     else
                       let s0 = initial_arrays n (initial_state scenario) rng;
                           ths = sort_key ThresholdSpec.theta (thresholds scenario)
                       in case loop scenario tgrid ths [1..<n] s0 of
                            Inl e \<Rightarrow> Inl e
                          | Inr s \<Rightarrow>
                              Inr (\<lparr>frame.time = tgrid,
                                    accumulator = st_x s,
                                    order_parameter = st_order s,
                                    driver = (st_driver_values s)
                                      [n - 1 := (if steps > 1 then st_driver_values s ! (n - 2)
                                                 else 0)],
                                    release = st_releases s\<rparr>,
                                   st_events s))"

text \<open>
  The state proposed by the step \<open>i\<close>, read back from the accumulator and driver columns:
  \<open>x[i - 1] + driver_values[i - 1] * dt\<close>.
\<close>

abbreviation proposed_at :: "real \<Rightarrow> real list \<Rightarrow> real list \<Rightarrow> nat \<Rightarrow> real" where
  "proposed_at h xs dvs i \<equiv> xs ! (i - 1) + dvs ! (i - 1) * h"

section \<open>The ensemble driver\<close>

text \<open>\<open>str(index)\<close> for the identifier of a member.\<close>

function str_nat :: "nat \<Rightarrow> string" where
  "str_nat n =
     (if n < 10 then [char_of (48 + n)]
      else str_nat (n div 10) @ [char_of (48 + n mod 10)])"
  by pat_completeness auto
termination
  by (relation "measure (\<lambda>n. n)") auto

text \<open>\<open>jitter.get(key, 0.0)\<close>.\<close>

definition jitter_get :: "(string \<rightharpoonup> real) \<Rightarrow> string \<Rightarrow> real" where
  "jitter_get jitter key = (case jitter key of None \<Rightarrow> 0 | Some v \<Rightarrow> v)"

text \<open>The loop over \<open>scenario.thresholds\<close>: two draws per threshold.\<close>

fun perturb_thresholds ::
  "(string \<rightharpoonup> real) \<Rightarrow> ThresholdSpec list \<Rightarrow> generator \<Rightarrow> ThresholdSpec list
     \<Rightarrow> py_error + (ThresholdSpec list \<times> generator)" where
  "perturb_thresholds jitter [] g acc = Inr (acc, g)"
| "perturb_thresholds jitter (th # rest) g acc =
     (case normal g (jitter_get jitter ''theta'') of
        Inl e \<Rightarrow> Inl e
      | Inr (n1, g1) \<Rightarrow>
          (case normal g1 (jitter_get jitter ''reset'') of
             Inl e \<Rightarrow> Inl e
           | Inr (n2, g2) \<Rightarrow>
               perturb_thresholds jitter rest g2
                 (acc @ [\<lparr>ThresholdSpec.theta = ThresholdSpec.theta th * (1 + n1),
                          reset = ThresholdSpec.reset th * (1 + n2),
                          delta_s = ThresholdSpec.delta_s th\<rparr>])))"

text \<open>The perturbed copy of the scenario built for the member \<open>index\<close>.\<close>

definition perturbed_scenario ::
  "(string \<rightharpoonup> real) \<Rightarrow> Scenario \<Rightarrow> nat \<Rightarrow> generator \<Rightarrow> py_error + (Scenario \<times> generator)" where
  "perturbed_scenario jitter scenario index g =
     (case normal g (jitter_get jitter ''rate'') of
        Inl e \<Rightarrow> Inl e
      | Inr (n1, g1) \<Rightarrow>
          (case normal g1 (jitter_get jitter ''leak'') of
             Inl e \<Rightarrow> Inl e
           | Inr (n2, g2) \<Rightarrow>
               (case perturb_thresholds jitter (thresholds scenario) g2 [] of
                  Inl e \<Rightarrow> Inl e
                | Inr (ths, g3) \<Rightarrow>
                    let rate_scale = 1 + n1;
                        leak_scale = 1 + n2;
                        drv = Scenario.driver scenario;
                        driver_copy =
                          \<lparr>type = type drv,
                           rate = (case rate drv of None \<Rightarrow> None
                                   | Some a \<Rightarrow> Some (a * rate_scale)),
                           leak = (case leak drv of None \<Rightarrow> None
                                   | Some b \<Rightarrow> Some (b * leak_scale)),
                           segments = segments drv,
                           noise_std = noise_std drv\<rparr>
                    in Inr (\<lparr>scenario_id = scenario_id scenario @ ''_member'' @ str_nat index,
                             label = label scenario,
                             description = description scenario,
                             dt = dt scenario,
                             duration = Scenario.duration scenario,
                             initial_state = initial_state scenario,
                             driver = driver_copy,
                             thresholds = ths\<rparr>, g3))))"

text \<open>\<open>frame["member"] = index\<close>: a new column holding the index in every row.\<close>

definition tag_member :: "frame \<Rightarrow> nat \<Rightarrow> tagged_frame" where
  "tag_member fr index =
     \<lparr>frame.time = frame.time fr,
      accumulator = accumulator fr,
      order_parameter = order_parameter fr,
      driver = frame.driver fr,
      release = release fr,
      member = replicate (length (frame.time fr)) index\<rparr>"

text \<open>The loop over \<open>range(size)\<close>.\<close>

fun members ::
  "(nat option \<Rightarrow> generator) \<Rightarrow> (string \<rightharpoonup> real) \<Rightarrow> Scenario \<Rightarrow> nat list \<Rightarrow> generator
     \<Rightarrow> tagged_frame list \<Rightarrow> py_error + tagged_frame list" where
  "members default_rng jitter scenario [] g results = Inr results"
| "members default_rng jitter scenario (index # rest) g results =
     (case perturbed_scenario jitter scenario index g of
        Inl e \<Rightarrow> Inl e
      | Inr (perturbed, g1) \<Rightarrow>
          (case integers g1 of
             (sub_seed, g2) \<Rightarrow>
               (case simulate_cycle default_rng perturbed (Some sub_seed) of
                  Inl e \<Rightarrow> Inl e
                | Inr (fr, evs) \<Rightarrow>
                    members default_rng jitter scenario rest g2
                      (results @ [tag_member fr index]))))"

definition simulate_ensemble ::
  "(nat option \<Rightarrow> generator) \<Rightarrow> Scenario \<Rightarrow> int \<Rightarrow> (string \<rightharpoonup> real) option \<Rightarrow> nat option
     \<Rightarrow> py_error + tagged_frame list" where
  "simulate_ensemble default_rng scenario size_n jitter seed =
     (let rng = default_rng seed;
          jitter' = (case jitter of None \<Rightarrow> Map.empty | Some j \<Rightarrow> j)
      in members default_rng jitter' scenario [0..<nat size_n] rng [])"

section \<open>Cycle statistics and the viability margin\<close>

text \<open>
  The body of the loop of \<open>summarize_cycles\<close>: the row built for one event from the
  start of its cycle. \<open>duration\<close> becomes not-a-number when it is not positive; the test
  \<open>duration and not np.isnan(duration)\<close> holds for a number other than 0.
\<close>

definition cycle_row :: "real \<Rightarrow> real \<Rightarrow> Event \<Rightarrow> CycleSummary" where
  "cycle_row last_time last_state event =
     (let d = Event.time event - last_time;
          dur = (if d \<le> 0 then None else Some d);
          amplitude = state_before event - last_state;
          slope = (case dur of
                     None \<Rightarrow> None
                   | Some v \<Rightarrow> if v \<noteq> 0 then Some (amplitude / v) else None);
          gain = Event.delta_s event
      in \<lparr>start_time = last_time,
          end_time = Event.time event,
          duration = dur,
          ramp_amplitude = amplitude,
          mean_slope = slope,
          release_gain = gain,
          theta = Event.theta event,
          reset_level = Event.reset event\<rparr>)"

fun cycles_loop ::
  "Event list \<Rightarrow> real \<Rightarrow> real \<Rightarrow> real \<Rightarrow> CycleSummary list \<Rightarrow> CycleSummary list" where
  "cycles_loop [] last_time last_state last_order summaries = summaries"
| "cycles_loop (event # rest) last_time last_state last_order summaries =
     cycles_loop rest (Event.time event) (Event.reset event)
       (last_order + Event.delta_s event)
       (summaries @ [cycle_row last_time last_state event])"

text \<open>\<open>frame["time"].iloc[0]\<close> is an \<open>IndexError\<close> on a table without rows.\<close>

definition summarize_cycles :: "frame \<Rightarrow> Event list \<Rightarrow> real \<Rightarrow> py_error + CycleSummary list" where
  "summarize_cycles fr events init =
     (if events = [] then Inr []
      else (case frame.time fr of
              [] \<Rightarrow> Inl IndexError
            | t0 # _ \<Rightarrow> Inr (cycles_loop events t0 init 0 [])))"

text \<open>The builtin \<open>max\<close> over an iterable: a \<open>ValueError\<close> when it is empty.\<close>

fun py_max :: "real list \<Rightarrow> py_error + real" where
  "py_max [] = Inl ValueError"
| "py_max (v # vs) = Inr (foldl (\<lambda>m w. if w > m then w else m) v vs)"

definition compute_viability_margin :: "frame \<Rightarrow> ThresholdSpec list \<Rightarrow> py_error + viability" where
  "compute_viability_margin fr ths =
     (case py_max (map ThresholdSpec.theta ths) of
        Inl e \<Rightarrow> Inl e
      | Inr top_theta \<Rightarrow>
          if accumulator fr = [] then Inl IndexError
          else
            let cur = last (accumulator fr);
                m = top_theta - cur;
                relative = (if top_theta \<noteq> 0 then Some (m / top_theta) else None)
            in Inr \<lparr>current_state = cur,
                    top_threshold = top_theta,
                    margin = m,
                    relative_margin = relative\<rparr>)"

section \<open>A concrete run\<close>

text \<open>
  A scenario with a linear drive, a negative initial state and two thresholds given in
  descending order, a generator that depends on the seed, and the table and events that
  \<open>simulate_cycle\<close> returns for it.
\<close>

definition probe_rng :: "nat option \<Rightarrow> generator" where
  "probe_rng seed = (\<lambda>k. (case seed of None \<Rightarrow> 0 | Some m \<Rightarrow> real m, k))"

definition probe_scenario :: Scenario where
  "probe_scenario =
     \<lparr>scenario_id = ''probe'', label = ''two thresholds'', description = ''linear ramp'',
      dt = 2, duration = 3, initial_state = - 1,
      driver = \<lparr>type = ''linear'', rate = Some 1, leak = None, segments = None,
                 noise_std = 0\<rparr>,
      thresholds = [\<lparr>ThresholdSpec.theta = 3 / 2, reset = 1 / 4, delta_s = 5\<rparr>,
                    \<lparr>ThresholdSpec.theta = 1 / 2, reset = - 1, delta_s = 1\<rparr>]\<rparr>"

definition probe_frame :: frame where
  "probe_frame =
     \<lparr>frame.time = [0, 3 / 2, 3], accumulator = [- 1, 0, 1 / 4],
      order_parameter = [0, 1, 6], driver = [1, 1, 1], release = [0, 1, 1]\<rparr>"

definition probe_events :: "Event list" where
  "probe_events =
     [\<lparr>Event.time = 3 / 2, theta = 1 / 2, reset = - 1, delta_s = 1, state_before = 1,
       state_after = - 1\<rparr>,
      \<lparr>Event.time = 3, theta = 3 / 2, reset = 1 / 4, delta_s = 5, state_before = 2,
       state_after = 1 / 4\<rparr>]"

text \<open>
  A jitter configuration with the key \<open>theta\<close> only, and the table of a member of the
  ensemble it gives on the scenario above with the seed 7: every normal variate of
  \<open>probe_rng (Some 7)\<close> is 7, so each \<open>theta\<close> is multiplied by \<open>1 + 7 * (3 / 7) = 4\<close>.
\<close>

definition probe_jitter :: "string \<rightharpoonup> real" where
  "probe_jitter = [''theta'' \<mapsto> 3 / 7]"

definition probe_member_frame :: frame where
  "probe_member_frame =
     \<lparr>frame.time = [0, 3 / 2, 3], accumulator = [- 1, 1, 0],
      order_parameter = [0, 0, 1], driver = [1, 1, 1], release = [0, 0, 1]\<rparr>"

section \<open>Facts about the analysis functions\<close>

lemma py_max_eq_Max: "vs \<noteq> [] \<Longrightarrow> py_max vs = Inr (Max (set vs))"
proof (cases vs)
  case Nil
  assume "vs \<noteq> []"
  with Nil show ?thesis by simp
next
  case (Cons v ws)
  have "foldl (\<lambda>m w. if w > m then w else m) a ws = fold max ws a" for a :: real
    by (induction ws arbitrary: a) (auto simp: max_def)
  then show ?thesis
    using Cons Max.set_eq_fold [of v ws] by simp
qed

lemma cycles_loop_append:
  "cycles_loop evs lt ls lo acc = acc @ cycles_loop evs lt ls lo []"
proof (induction evs arbitrary: lt ls lo acc)
  case Nil
  show ?case by simp
next
  case (Cons e rest)
  show ?case
    using Cons.IH [of "Event.time e" "Event.reset e" _ "acc @ [cycle_row lt ls e]"]
          Cons.IH [of "Event.time e" "Event.reset e" _ "[cycle_row lt ls e]"]
    by simp
qed

lemma cycles_loop_Cons:
  "cycles_loop (e # rest) lt ls lo [] =
     cycle_row lt ls e # cycles_loop rest (Event.time e) (Event.reset e) (lo + Event.delta_s e) []"
  using cycles_loop_append [of rest _ _ _ "[cycle_row lt ls e]"] by simp

lemma cycles_loop_length: "length (cycles_loop evs lt ls lo []) = length evs"
  by (induction evs arbitrary: lt ls lo) (simp_all add: cycles_loop_Cons del: cycles_loop.simps(2))

lemma cycles_loop_nth:
  "k < length evs \<Longrightarrow>
   cycles_loop evs lt ls lo [] ! k =
     cycle_row (if k = 0 then lt else Event.time (evs ! (k - 1)))
               (if k = 0 then ls else Event.reset (evs ! (k - 1))) (evs ! k)"
proof (induction evs arbitrary: k lt ls lo)
  case Nil
  then show ?case by simp
next
  case (Cons e rest)
  show ?case
  proof (cases k)
    case 0
    then show ?thesis by (simp add: cycles_loop_Cons del: cycles_loop.simps(2))
  next
    case (Suc j)
    with Cons.prems have j: "j < length rest" by simp
    show ?thesis
      using Cons.IH [OF j, of "Event.time e" "Event.reset e" "lo + Event.delta_s e"] Suc
      by (cases j) (simp_all add: cycles_loop_Cons del: cycles_loop.simps(2))
  qed
qed

section \<open>Error kinds of invalid input\<close>

text \<open>
  Claim C4, as the code has it. A leaky driver without \<open>rate\<close> or \<open>leak\<close>, a linear
  driver without \<open>rate\<close>, a driver of an unsupported type and an empty threshold sequence
  given to \<open>compute_viability_margin\<close> all raise \<open>ValueError\<close>. A piecewise driver whose
  segments are absent is rejected by the assertion of \<open>_piecewise_rate\<close>, an
  \<open>AssertionError\<close>, and one whose segment list is empty fails as well.
\<close>

theorem invalid_input_error_kinds:
  "(type drv = ''leaky'' \<and> (rate drv = None \<or> leak drv = None)
      \<longrightarrow> driver_derivative drv t state = Inl ValueError)
   \<and> (type drv = ''linear'' \<and> rate drv = None
      \<longrightarrow> driver_derivative drv t state = Inl ValueError)
   \<and> (type drv \<notin> {''leaky'', ''linear'', ''piecewise''}
      \<longrightarrow> driver_derivative drv t state = Inl ValueError)
   \<and> compute_viability_margin fr [] = Inl ValueError
   \<and> (type drv = ''piecewise'' \<and> segments drv = None
      \<longrightarrow> driver_derivative drv t state = Inl AssertionError)
   \<and> (type drv = ''piecewise'' \<and> segments drv = Some []
      \<longrightarrow> (\<exists>e. driver_derivative drv t state = Inl e))"
  by (auto simp: driver_derivative_def piecewise_rate_def compute_viability_margin_def
           split: option.splits)

theorem invalid_input_error_kinds_witness:
  "driver_derivative \<lparr>type = ''leaky'', rate = Some 1, leak = None, segments = None,
       noise_std = 0\<rparr> 0 0 = Inl ValueError
   \<and> driver_derivative \<lparr>type = ''linear'', rate = None, leak = None, segments = None,
       noise_std = 0\<rparr> 0 0 = Inl ValueError
   \<and> driver_derivative \<lparr>type = ''ramp'', rate = Some 1, leak = None, segments = None,
       noise_std = 0\<rparr> 0 0 = Inl ValueError
   \<and> driver_derivative \<lparr>type = ''piecewise'', rate = None, leak = None, segments = None,
       noise_std = 0\<rparr> 0 0 = Inl AssertionError"
  using invalid_input_error_kinds
          [of "\<lparr>type = ''leaky'', rate = Some 1, leak = None, segments = None,
                noise_std = 0\<rparr>" 0 0]
        invalid_input_error_kinds
          [of "\<lparr>type = ''linear'', rate = None, leak = None, segments = None,
                noise_std = 0\<rparr>" 0 0]
        invalid_input_error_kinds
          [of "\<lparr>type = ''ramp'', rate = Some 1, leak = None, segments = None,
                noise_std = 0\<rparr>" 0 0]
        invalid_input_error_kinds
          [of "\<lparr>type = ''piecewise'', rate = None, leak = None, segments = None,
                noise_std = 0\<rparr>" 0 0]
  by simp

text \<open>
  The error kinds are not a single one: the empty segment list ends in the \<open>IndexError\<close>
  of \<open>driver.segments[-1]\<close>, the absent one in an \<open>AssertionError\<close>, a missing rate in a
  \<open>ValueError\<close>.
\<close>

theorem invalid_input_kinds_differ:
  "driver_derivative \<lparr>type = ''piecewise'', rate = None, leak = None, segments = Some [],
       noise_std = 0\<rparr> 0 0 = Inl IndexError
   \<and> driver_derivative \<lparr>type = ''piecewise'', rate = None, leak = None, segments = None,
       noise_std = 0\<rparr> 0 0 = Inl AssertionError
   \<and> driver_derivative \<lparr>type = ''leaky'', rate = None, leak = Some 1, segments = None,
       noise_std = 0\<rparr> 0 0 = Inl ValueError
   \<and> IndexError \<noteq> ValueError \<and> AssertionError \<noteq> ValueError"
  by (simp add: driver_derivative_def piecewise_rate_def)

section \<open>The viability margin\<close>

text \<open>
  Claim C6, as the code has it. For a non-empty threshold sequence and a table with at
  least one row, \<open>compute_viability_margin\<close> returns the largest \<open>theta\<close> as
  \<open>top_threshold\<close>, the last accumulator value as \<open>current_state\<close>, their difference as
  \<open>margin\<close>, and \<open>margin / top_threshold\<close> as \<open>relative_margin\<close>, which is not-a-number
  when \<open>top_threshold\<close> is 0. When the last accumulator value equals a \<open>top_threshold\<close>
  other than 0, \<open>margin\<close> and \<open>relative_margin\<close> are both 0.
\<close>

theorem viability_margin_values:
  assumes "ths \<noteq> []" and "accumulator fr \<noteq> []"
  shows "\<exists>v. compute_viability_margin fr ths = Inr v
           \<and> top_threshold v = Max (set (map ThresholdSpec.theta ths))
           \<and> current_state v = last (accumulator fr)
           \<and> margin v = top_threshold v - current_state v
           \<and> relative_margin v =
               (if top_threshold v = 0 then None else Some (margin v / top_threshold v))
           \<and> (current_state v = top_threshold v \<and> top_threshold v \<noteq> 0
                \<longrightarrow> margin v = 0 \<and> relative_margin v = Some 0)"
proof -
  from assms(1) have "py_max (map ThresholdSpec.theta ths) = Inr (Max (set (map ThresholdSpec.theta ths)))"
    by (intro py_max_eq_Max) simp
  with assms(2) show ?thesis
    by (simp add: compute_viability_margin_def Let_def)
qed

theorem viability_margin_values_witness:
  "compute_viability_margin
     \<lparr>frame.time = [0, 1], accumulator = [1, 5], order_parameter = [0, 0], driver = [4, 4],
      release = [0, 0]\<rparr>
     [\<lparr>ThresholdSpec.theta = 2, reset = 0, delta_s = 1\<rparr>,
      \<lparr>ThresholdSpec.theta = 5, reset = 0, delta_s = 1\<rparr>]
   = Inr \<lparr>current_state = 5, top_threshold = 5, margin = 0, relative_margin = Some 0\<rparr>"
proof -
  let ?fr = "\<lparr>frame.time = [0, 1], accumulator = [1, 5], order_parameter = [0, 0],
              driver = [4, 4], release = [0, 0]\<rparr>"
  let ?ths = "[\<lparr>ThresholdSpec.theta = 2, reset = 0, delta_s = 1\<rparr>,
               \<lparr>ThresholdSpec.theta = 5, reset = 0, delta_s = 1\<rparr>]"
  have "?ths \<noteq> []" and "accumulator ?fr \<noteq> []" by simp_all
  from viability_margin_values [OF this]
  obtain v where "compute_viability_margin ?fr ?ths = Inr v"
    and "top_threshold v = 5" and "current_state v = 5"
    and "margin v = top_threshold v - current_state v"
    and "relative_margin v =
           (if top_threshold v = 0 then None else Some (margin v / top_threshold v))"
    by auto
  then show ?thesis by (cases v) simp
qed

text \<open>
  A trajectory that ends at a \<open>top_threshold\<close> of 0 has margin 0, and a
  \<open>relative_margin\<close> that is not-a-number rather than 0.
\<close>

theorem margin_at_zero_top_threshold:
  "compute_viability_margin
     \<lparr>frame.time = [0], accumulator = [0], order_parameter = [0], driver = [0],
      release = [0]\<rparr>
     [\<lparr>ThresholdSpec.theta = 0, reset = 0, delta_s = 1\<rparr>]
   = Inr \<lparr>current_state = 0, top_threshold = 0, margin = 0, relative_margin = None\<rparr>"
  by (simp add: compute_viability_margin_def)

section \<open>Cycle statistics\<close>

text \<open>
  Claim C7. In the row of the event number \<open>k\<close>, \<open>start_time\<close> is the time of the first
  sample for the first event and the time of the previous event otherwise; \<open>duration\<close> is
  the event's time minus \<open>start_time\<close>, replaced by not-a-number when that difference is
  not positive; \<open>mean_slope\<close> is \<open>ramp_amplitude / duration\<close> when \<open>duration\<close> is a number
  other than 0 and not-a-number otherwise.
\<close>

theorem cycle_duration_and_slope:
  assumes "summarize_cycles fr events init = Inr cs" and "k < length events"
  shows "start_time (cs ! k) =
           (if k = 0 then frame.time fr ! 0 else Event.time (events ! (k - 1)))
         \<and> CycleSummary.duration (cs ! k) =
             (if Event.time (events ! k) - start_time (cs ! k) \<le> 0 then None
              else Some (Event.time (events ! k) - start_time (cs ! k)))
         \<and> mean_slope (cs ! k) =
             (case CycleSummary.duration (cs ! k) of
                None \<Rightarrow> None
              | Some v \<Rightarrow> if v \<noteq> 0 then Some (ramp_amplitude (cs ! k) / v) else None)"
proof -
  from assms obtain t0 rest where t: "frame.time fr = t0 # rest"
    and cs: "cs = cycles_loop events t0 init 0 []"
    by (auto simp: summarize_cycles_def split: if_splits list.splits)
  show ?thesis
    unfolding cs cycles_loop_nth [OF assms(2)]
    by (simp add: cycle_row_def Let_def t)
qed

theorem cycle_duration_and_slope_witness:
  "summarize_cycles
     \<lparr>frame.time = [0, 1, 2], accumulator = [0, 0, 0], order_parameter = [0, 1, 2],
      driver = [3, 3, 3], release = [0, 1, 1]\<rparr>
     [\<lparr>Event.time = 1, theta = 2, reset = 0, delta_s = 1, state_before = 3, state_after = 0\<rparr>,
      \<lparr>Event.time = 1, theta = 2, reset = 0, delta_s = 1, state_before = 3, state_after = 0\<rparr>,
      \<lparr>Event.time = 3, theta = 2, reset = 0, delta_s = 1, state_before = 3, state_after = 0\<rparr>]
     0
   = Inr [cycle_row 0 0 \<lparr>Event.time = 1, theta = 2, reset = 0, delta_s = 1,
                          state_before = 3, state_after = 0\<rparr>,
          cycle_row 1 0 \<lparr>Event.time = 1, theta = 2, reset = 0, delta_s = 1,
                          state_before = 3, state_after = 0\<rparr>,
          cycle_row 1 0 \<lparr>Event.time = 3, theta = 2, reset = 0, delta_s = 1,
                          state_before = 3, state_after = 0\<rparr>]
   \<and> CycleSummary.duration
         (cycle_row 0 0 \<lparr>Event.time = 1, theta = 2, reset = 0, delta_s = 1,
                          state_before = 3, state_after = 0\<rparr>) = Some 1
   \<and> mean_slope
         (cycle_row 0 0 \<lparr>Event.time = 1, theta = 2, reset = 0, delta_s = 1,
                          state_before = 3, state_after = 0\<rparr>) = Some 3
   \<and> CycleSummary.duration
         (cycle_row 1 0 \<lparr>Event.time = 1, theta = 2, reset = 0, delta_s = 1,
                          state_before = 3, state_after = 0\<rparr>) = None
   \<and> mean_slope
         (cycle_row 1 0 \<lparr>Event.time = 1, theta = 2, reset = 0, delta_s = 1,
                          state_before = 3, state_after = 0\<rparr>) = None"
proof -
  let ?fr = "\<lparr>frame.time = [0, 1, 2], accumulator = [0, 0, 0], order_parameter = [0, 1, 2],
      driver = [3, 3, 3], release = [0, 1, 1]\<rparr>"
  let ?e = "\<lparr>Event.time = 1, theta = 2, reset = 0, delta_s = 1, state_before = 3,
             state_after = 0\<rparr>"
  let ?e3 = "\<lparr>Event.time = 3, theta = 2, reset = 0, delta_s = 1, state_before = 3,
             state_after = 0\<rparr>"
  let ?cs = "[cycle_row 0 0 ?e, cycle_row 1 0 ?e, cycle_row 1 0 ?e3]"
  have run: "summarize_cycles ?fr [?e, ?e, ?e3] 0 = Inr ?cs"
    by (simp add: summarize_cycles_def)
  have k0: "(0::nat) < length [?e, ?e, ?e3]" and k1: "(1::nat) < length [?e, ?e, ?e3]"
    by simp_all
  show ?thesis
    using run cycle_duration_and_slope [OF run k0] cycle_duration_and_slope [OF run k1]
    by (simp add: cycle_row_def)
qed

text \<open>
  Claim C8, as the code has it. When the table has at least one row, or there is no
  event, \<open>summarize_cycles\<close> returns one row per event, in the order of the events, and no
  row for an empty event list.
\<close>

theorem summarize_one_row_per_event:
  assumes "events = [] \<or> frame.time fr \<noteq> []"
  shows "\<exists>cs. summarize_cycles fr events init = Inr cs
           \<and> length cs = length events
           \<and> (\<forall>k<length events.
                 end_time (cs ! k) = Event.time (events ! k)
                 \<and> release_gain (cs ! k) = Event.delta_s (events ! k)
                 \<and> CycleSummary.theta (cs ! k) = Event.theta (events ! k)
                 \<and> reset_level (cs ! k) = Event.reset (events ! k))
           \<and> (events = [] \<longrightarrow> cs = [])"
proof (cases "events = []")
  case True
  then show ?thesis by (simp add: summarize_cycles_def)
next
  case False
  with assms obtain t0 rest where t: "frame.time fr = t0 # rest"
    by (cases "frame.time fr") auto
  have "summarize_cycles fr events init = Inr (cycles_loop events t0 init 0 [])"
    using False t by (simp add: summarize_cycles_def)
  then show ?thesis
    using False by (simp add: cycles_loop_length cycles_loop_nth cycle_row_def Let_def)
qed

theorem summarize_one_row_per_event_witness:
  "\<exists>r1 r2. summarize_cycles
     \<lparr>frame.time = [0, 1, 2], accumulator = [0, 0, 0], order_parameter = [0, 1, 2],
      driver = [3, 3, 3], release = [0, 1, 1]\<rparr>
     [\<lparr>Event.time = 1, theta = 2, reset = 0, delta_s = 1, state_before = 3, state_after = 0\<rparr>,
      \<lparr>Event.time = 2, theta = 4, reset = 0, delta_s = 1, state_before = 5, state_after = 0\<rparr>]
     0 = Inr [r1, r2] \<and> end_time r1 = 1 \<and> end_time r2 = 2
       \<and> CycleSummary.theta r1 = 2 \<and> CycleSummary.theta r2 = 4"
proof -
  let ?fr = "\<lparr>frame.time = [0, 1, 2], accumulator = [0, 0, 0], order_parameter = [0, 1, 2],
      driver = [3, 3, 3], release = [0, 1, 1]\<rparr>"
  let ?evs = "[\<lparr>Event.time = 1, theta = 2, reset = 0, delta_s = 1, state_before = 3,
                 state_after = 0\<rparr>,
               \<lparr>Event.time = 2, theta = 4, reset = 0, delta_s = 1, state_before = 5,
                 state_after = 0\<rparr>]"
  have "?evs = [] \<or> frame.time ?fr \<noteq> []" by simp
  from summarize_one_row_per_event [OF this, of 0]
  obtain cs where run: "summarize_cycles ?fr ?evs 0 = Inr cs" and len: "length cs = 2"
    and rows: "\<forall>k<2. end_time (cs ! k) = Event.time (?evs ! k)
                 \<and> CycleSummary.theta (cs ! k) = Event.theta (?evs ! k)"
    by auto
  from len obtain r1 r2 where cs: "cs = [r1, r2]"
    by (cases cs; cases "tl cs") auto
  from rows have "end_time (cs ! 0) = 1" "end_time (cs ! 1) = 2"
    "CycleSummary.theta (cs ! 0) = 2" "CycleSummary.theta (cs ! 1) = 4"
    by (simp_all add: numeral_2_eq_2)
  with run cs show ?thesis by simp
qed

text \<open>
  With events and a table without rows, \<open>frame["time"].iloc[0]\<close> raises before any row
  is built.
\<close>

theorem summarize_without_rows_fails:
  "summarize_cycles
     \<lparr>frame.time = [], accumulator = [], order_parameter = [], driver = [], release = []\<rparr>
     [\<lparr>Event.time = 1, theta = 2, reset = 0, delta_s = 1, state_before = 3, state_after = 0\<rparr>]
     0 = Inl IndexError"
  by (simp add: summarize_cycles_def)

section \<open>Facts about the integrator\<close>

lemma last_crossed_in_set:
  "crossed_by ths v \<noteq> [] \<Longrightarrow> last (crossed_by ths v) \<in> set ths"
  using last_in_set [of "crossed_by ths v"] by (auto simp: crossed_by_def)

lemma step_cases:
  assumes "step sc tg ths idx s = Inr s'"
  obtains d g where
    "noisy_derivative (Scenario.driver sc) (tg ! (idx - 1)) (st_x s ! (idx - 1)) (st_rng s)
       = Inr (d, g)"
    "crossed_by ths (st_x s ! (idx - 1) + d * dt sc) = []"
    "s' = \<lparr>st_x = (st_x s)[idx := max (st_x s ! (idx - 1) + d * dt sc) 0],
           st_order = (st_order s)[idx := st_order s ! (idx - 1)],
           st_releases = st_releases s,
           st_driver_values = (st_driver_values s)[idx - 1 := d],
           st_events = st_events s,
           st_rng = g\<rparr>"
  | d g sel where
    "noisy_derivative (Scenario.driver sc) (tg ! (idx - 1)) (st_x s ! (idx - 1)) (st_rng s)
       = Inr (d, g)"
    "crossed_by ths (st_x s ! (idx - 1) + d * dt sc) \<noteq> []"
    "sel = last (crossed_by ths (st_x s ! (idx - 1) + d * dt sc))"
    "s' = \<lparr>st_x = (st_x s)[idx := max (ThresholdSpec.reset sel) 0],
           st_order = (st_order s)[idx := st_order s ! (idx - 1) + ThresholdSpec.delta_s sel],
           st_releases = (st_releases s)[idx := 1],
           st_driver_values = (st_driver_values s)[idx - 1 := d],
           st_events = st_events s @
             [release_event (tg ! idx) sel (st_x s ! (idx - 1) + d * dt sc)],
           st_rng = g\<rparr>"
  using assms unfolding step_def Let_def
  by (auto split: sum.splits prod.splits if_splits)

lemma loop_append:
  "loop sc tg ths (is1 @ is2) s =
     (case loop sc tg ths is1 s of Inl e \<Rightarrow> Inl e | Inr s' \<Rightarrow> loop sc tg ths is2 s')"
  by (induction is1 arbitrary: s) (auto split: sum.splits)

lemma loop_upt_Suc:
  assumes "1 \<le> n"
  shows "loop sc tg ths [1..<Suc n] s =
     (case loop sc tg ths [1..<n] s of Inl e \<Rightarrow> Inl e | Inr s' \<Rightarrow> step sc tg ths n s')"
proof -
  have "[1..<Suc n] = [1..<n] @ [n]" using assms by simp
  then show ?thesis by (simp add: loop_append split: sum.splits)
qed

text \<open>
  Induction over the loop: a property of the index and the state that holds before the
  first step and that every step carries to the next index holds when the loop ends.
\<close>

lemma loop_upt_induct:
  assumes run: "loop sc tg ths [1..<n] s0 = Inr s"
    and base: "P 1 s0"
    and step: "\<And>k a b. 1 \<le> k \<Longrightarrow> k < n \<Longrightarrow> P k a \<Longrightarrow> step sc tg ths k a = Inr b \<Longrightarrow> P (Suc k) b"
  shows "P (max 1 n) s"
  using run step
proof (induction n arbitrary: s)
  case 0
  then show ?case using base by simp
next
  case (Suc n)
  show ?case
  proof (cases "1 \<le> n")
    case False
    then have "n = 0" by simp
    with Suc.prems base show ?thesis by simp
  next
    case True
    from Suc.prems(1) obtain a where a: "loop sc tg ths [1..<n] s0 = Inr a"
      and b: "step sc tg ths n a = Inr s"
      unfolding loop_upt_Suc [OF True] by (auto split: sum.splits)
    have "P (max 1 n) a"
      by (rule Suc.IH [OF a]) (use Suc.prems(2) in auto)
    with True have "P n a" by (simp add: max_def)
    from Suc.prems(2) [OF True _ this b] True show ?thesis by (simp add: max_def)
  qed
qed

lemma simulate_cycle_cases:
  assumes "simulate_cycle dr sc seed = Inr (fr, evs)"
  obtains tg s n where
    "dt sc \<noteq> 0"
    "n = nat (\<lceil>Scenario.duration sc / dt sc\<rceil> + 1)"
    "0 < n"
    "linspace 0 (Scenario.duration sc) (\<lceil>Scenario.duration sc / dt sc\<rceil> + 1) = Inr tg"
    "loop sc tg (sort_key ThresholdSpec.theta (thresholds sc)) [1..<n]
       (initial_arrays n (initial_state sc) (dr seed)) = Inr s"
    "frame.time fr = tg"
    "accumulator fr = st_x s"
    "order_parameter fr = st_order s"
    "frame.driver fr = (st_driver_values s)
       [n - 1 := (if \<lceil>Scenario.duration sc / dt sc\<rceil> + 1 > 1
                  then st_driver_values s ! (n - 2) else 0)]"
    "release fr = st_releases s"
    "evs = st_events s"
proof -
  let ?steps = "\<lceil>Scenario.duration sc / dt sc\<rceil> + 1"
  let ?ths = "sort_key ThresholdSpec.theta (thresholds sc)"
  let ?s0 = "initial_arrays (nat ?steps) (initial_state sc) (dr seed)"
  note unfold = simulate_cycle_def Let_def if_True if_False sum.case
  have dt: "dt sc \<noteq> 0"
  proof
    assume "dt sc = 0"
    with assms show False by (simp only: unfold) simp
  qed
  obtain tg where tg: "linspace 0 (Scenario.duration sc) ?steps = Inr tg"
  proof (cases "linspace 0 (Scenario.duration sc) ?steps")
    case (Inl e)
    with assms dt show ?thesis by (simp only: unfold) simp
  next
    case (Inr tg)
    then show ?thesis by (rule that)
  qed
  have n: "nat ?steps \<noteq> 0"
  proof
    assume "nat ?steps = 0"
    with assms dt tg show False by (simp only: unfold) simp
  qed
  obtain s where s: "loop sc tg ?ths [1..<nat ?steps] ?s0 = Inr s"
  proof (cases "loop sc tg ?ths [1..<nat ?steps] ?s0")
    case (Inl e)
    with assms dt tg n show ?thesis by (simp only: unfold) simp
  next
    case (Inr s)
    then show ?thesis by (rule that)
  qed
  let ?fr = "\<lparr>frame.time = tg,
           accumulator = st_x s,
           order_parameter = st_order s,
           driver = (st_driver_values s)
             [nat ?steps - 1 := (if ?steps > 1
                        then st_driver_values s ! (nat ?steps - 2) else 0)],
           release = st_releases s\<rparr>"
  from assms dt tg n s
  have "Inr (?fr, st_events s) = (Inr (fr, evs) :: py_error + _)"
    by (simp only: unfold)
  then have fr: "fr = ?fr" and evs: "evs = st_events s"
    by (simp_all only: sum.inject prod.inject)
  from n have npos: "0 < nat ?steps" by (simp only: neq0_conv)
  show thesis
  proof (rule that [of "nat ?steps" tg s, OF dt refl npos tg s _ _ _ _ _ evs])
    show "frame.time fr = tg" "accumulator fr = st_x s" "order_parameter fr = st_order s"
      "release fr = st_releases s" by (simp_all only: fr frame.simps)
    show "frame.driver fr = (st_driver_values s)
       [nat ?steps - 1 := (if ?steps > 1 then st_driver_values s ! (nat ?steps - 2) else 0)]"
      by (simp only: fr frame.simps)
  qed
qed

lemma initial_arrays_simps [simp]:
  "st_x (initial_arrays n x0 g) = (replicate n 0)[0 := x0]"
  "st_order (initial_arrays n x0 g) = (replicate n 0)[0 := 0]"
  "st_releases (initial_arrays n x0 g) = replicate n 0"
  "st_driver_values (initial_arrays n x0 g) = replicate n 0"
  "st_events (initial_arrays n x0 g) = []"
  "st_rng (initial_arrays n x0 g) = g"
  by (simp_all add: initial_arrays_def)

lemma linspace_from_zero:
  assumes "linspace 0 d m = Inr tg"
  shows "length tg = nat m"
    and "\<And>i. i < nat m \<Longrightarrow> tg ! i = real i * (d / real (nat m - 1))"
proof -
  from assms have m: "0 \<le> m" by (auto simp: linspace_def split: if_splits)
  show "length tg = nat m"
    using assms by (auto simp: linspace_def split: if_splits)
  fix i assume "i < nat m"
  then show "tg ! i = real i * (d / real (nat m - 1))"
    using assms by (auto simp: linspace_def split: if_splits)
qed

lemma noisy_derivative_quiet:
  "\<not> 0 < noise_std drv \<Longrightarrow>
   noisy_derivative drv t v g =
     (case driver_derivative drv t v of Inl e \<Rightarrow> Inl e | Inr d \<Rightarrow> Inr (d, g))"
  by (simp add: noisy_derivative_def split: sum.splits)

lemma step_quiet:
  assumes "\<not> 0 < noise_std (Scenario.driver sc)"
  shows "step sc tg ths idx (s\<lparr>st_rng := g\<rparr>) =
     (case step sc tg ths idx s of Inl e \<Rightarrow> Inl e | Inr s' \<Rightarrow> Inr (s'\<lparr>st_rng := g\<rparr>))"
  by (simp add: step_def Let_def noisy_derivative_quiet [OF assms] split: sum.splits)

lemma loop_quiet:
  assumes "\<not> 0 < noise_std (Scenario.driver sc)"
  shows "loop sc tg ths idxs (s\<lparr>st_rng := g\<rparr>) =
     (case loop sc tg ths idxs s of Inl e \<Rightarrow> Inl e | Inr s' \<Rightarrow> Inr (s'\<lparr>st_rng := g\<rparr>))"
proof (induction idxs arbitrary: s)
  case Nil
  show ?case by simp
next
  case (Cons idx rest)
  show ?case
    by (simp add: step_quiet [OF assms] Cons.IH split: sum.splits)
qed

lemma sorted_map_last_greatest:
  "sorted (map f xs) \<Longrightarrow> x \<in> set xs \<Longrightarrow> f x \<le> f (last xs)"
  by (induction xs) (auto split: if_splits)

lemma last_crossed_highest:
  assumes "sorted (map ThresholdSpec.theta ths)" and "crossed_by ths v \<noteq> []"
  shows "last (crossed_by ths v) \<in> set ths"
    and "ThresholdSpec.theta (last (crossed_by ths v)) \<le> v"
    and "\<And>th. th \<in> set ths \<Longrightarrow> ThresholdSpec.theta th \<le> v
           \<Longrightarrow> ThresholdSpec.theta th \<le> ThresholdSpec.theta (last (crossed_by ths v))"
proof -
  have mem: "last (crossed_by ths v) \<in> set (crossed_by ths v)"
    using assms(2) by (rule last_in_set)
  then show "last (crossed_by ths v) \<in> set ths"
    and "ThresholdSpec.theta (last (crossed_by ths v)) \<le> v"
    by (simp_all add: crossed_by_def)
  have srt: "sorted (map ThresholdSpec.theta (crossed_by ths v))"
    unfolding crossed_by_def using assms(1) by (rule sorted_filter)
  fix th assume "th \<in> set ths" "ThresholdSpec.theta th \<le> v"
  then have "th \<in> set (crossed_by ths v)" by (simp add: crossed_by_def)
  with srt show "ThresholdSpec.theta th \<le> ThresholdSpec.theta (last (crossed_by ths v))"
    by (rule sorted_map_last_greatest)
qed

lemma crossed_by_sorted_nonempty:
  "crossed_by (sort_key ThresholdSpec.theta ths) v \<noteq> []
     \<longleftrightarrow> (\<exists>th \<in> set ths. ThresholdSpec.theta th \<le> v)"
  by (auto simp: crossed_by_def filter_empty_conv)

lemma filter_eq_singleton:
  "distinct xs \<Longrightarrow> i \<in> set xs \<Longrightarrow> filter (\<lambda>j. j = i) xs = [i]"
  by (induction xs) (auto simp: filter_empty_conv)

text \<open>
  What the loop has recorded when it ends: at every index where the proposed state reaches
  a threshold, the reset, the increment and the flag of the last threshold reached, and one
  event for each such index, in order.
\<close>

lemma loop_records_crossings:
  assumes run: "loop sc tg ths [1..<n] (initial_arrays n x0 g0) = Inr s" and n: "0 < n"
  shows "length (st_x s) = n \<and> length (st_order s) = n \<and> length (st_releases s) = n
         \<and> length (st_driver_values s) = n
         \<and> (\<forall>j. 1 \<le> j \<and> j < n
                \<and> crossed_by ths (proposed_at (dt sc) (st_x s) (st_driver_values s) j) \<noteq> []
              \<longrightarrow> st_x s ! j =
                    max (ThresholdSpec.reset
                          (last (crossed_by ths
                             (proposed_at (dt sc) (st_x s) (st_driver_values s) j)))) 0
                  \<and> st_order s ! j = st_order s ! (j - 1) +
                      ThresholdSpec.delta_s
                        (last (crossed_by ths
                           (proposed_at (dt sc) (st_x s) (st_driver_values s) j)))
                  \<and> st_releases s ! j = 1)
         \<and> st_events s =
             map (\<lambda>j. release_event (tg ! j)
                        (last (crossed_by ths
                           (proposed_at (dt sc) (st_x s) (st_driver_values s) j)))
                        (proposed_at (dt sc) (st_x s) (st_driver_values s) j))
               (filter (\<lambda>j. crossed_by ths
                              (proposed_at (dt sc) (st_x s) (st_driver_values s) j) \<noteq> [])
                  [1..<n])"
proof -
  let ?pr = "\<lambda>a j. proposed_at (dt sc) (st_x a) (st_driver_values a) j"
  let ?cr = "\<lambda>a j. crossed_by ths (?pr a j)"
  let ?ev = "\<lambda>a j. release_event (tg ! j) (last (?cr a j)) (?pr a j)"
  let ?P = "\<lambda>k a. length (st_x a) = n \<and> length (st_order a) = n \<and> length (st_releases a) = n
         \<and> length (st_driver_values a) = n
         \<and> (\<forall>j. 1 \<le> j \<and> j < k \<and> ?cr a j \<noteq> []
              \<longrightarrow> st_x a ! j = max (ThresholdSpec.reset (last (?cr a j))) 0
                  \<and> st_order a ! j = st_order a ! (j - 1) + ThresholdSpec.delta_s (last (?cr a j))
                  \<and> st_releases a ! j = 1)
         \<and> st_events a = map (?ev a) (filter (\<lambda>j. ?cr a j \<noteq> []) [1..<k])"
  have "?P (max 1 n) s"
  proof (rule loop_upt_induct [OF run])
    show "?P 1 (initial_arrays n x0 g0)" by simp
  next
    fix k a b
    assume k: "1 \<le> k" "k < n" and a: "?P k a" and b: "step sc tg ths k a = Inr b"
    from a have len: "length (st_x a) = n" "length (st_order a) = n"
      "length (st_releases a) = n" "length (st_driver_values a) = n" by simp_all
    from a have old: "\<And>j. 1 \<le> j \<Longrightarrow> j < k \<Longrightarrow> ?cr a j \<noteq> []
        \<Longrightarrow> st_x a ! j = max (ThresholdSpec.reset (last (?cr a j))) 0
          \<and> st_order a ! j = st_order a ! (j - 1) + ThresholdSpec.delta_s (last (?cr a j))
          \<and> st_releases a ! j = 1" by blast
    from a have evs: "st_events a = map (?ev a) (filter (\<lambda>j. ?cr a j \<noteq> []) [1..<k])"
      by blast
    have upt: "[1..<Suc k] = [1..<k] @ [k]" using k by simp
    from b show "?P (Suc k) b"
    proof (cases rule: step_cases)
      case (1 d g)
      let ?v = "st_x a ! (k - 1) + d * dt sc"
      have bx: "st_x b = (st_x a)[k := max ?v 0]"
        and bo: "st_order b = (st_order a)[k := st_order a ! (k - 1)]"
        and br: "st_releases b = st_releases a"
        and bd: "st_driver_values b = (st_driver_values a)[k - 1 := d]"
        and be: "st_events b = st_events a"
        using 1(3) by simp_all
      have same: "?pr b j = ?pr a j" if "1 \<le> j" "j < k" for j
        using that by (simp add: bx bd)
      have here: "?pr b k = ?v"
        using k len by (simp add: bx bd)
      have nocross: "?cr b k = []" unfolding here by (rule 1(2))
      have "map (?ev b) (filter (\<lambda>j. ?cr b j \<noteq> []) [1..<Suc k])
            = map (?ev b) (filter (\<lambda>j. ?cr b j \<noteq> []) [1..<k])"
        unfolding upt using nocross by simp
      also have "\<dots> = map (?ev a) (filter (\<lambda>j. ?cr a j \<noteq> []) [1..<k])"
      proof -
        have f: "filter (\<lambda>j. ?cr b j \<noteq> []) [1..<k] = filter (\<lambda>j. ?cr a j \<noteq> []) [1..<k]"
          by (rule filter_cong) (use same in simp_all)
        show ?thesis unfolding f by (rule map_cong) (use same in simp_all)
      qed
      finally have events: "st_events b = map (?ev b) (filter (\<lambda>j. ?cr b j \<noteq> []) [1..<Suc k])"
        by (simp only: be evs)
      have rows: "st_x b ! j = max (ThresholdSpec.reset (last (?cr b j))) 0
          \<and> st_order b ! j = st_order b ! (j - 1) + ThresholdSpec.delta_s (last (?cr b j))
          \<and> st_releases b ! j = 1"
        if j: "1 \<le> j" "j < Suc k" "?cr b j \<noteq> []" for j
      proof -
        from j nocross have jk: "j < k" by (cases "j = k") auto
        have ca: "?cr a j \<noteq> []" using j(3) same [OF j(1) jk] by simp
        have eqs: "st_x b ! j = st_x a ! j" "st_order b ! j = st_order a ! j"
          "st_order b ! (j - 1) = st_order a ! (j - 1)" "st_releases b ! j = st_releases a ! j"
          using jk j(1) by (simp_all add: bx bo br)
        show ?thesis
          unfolding same [OF j(1) jk] eqs by (rule old [OF j(1) jk ca])
      qed
      have lb: "length (st_x b) = n" "length (st_order b) = n" "length (st_releases b) = n"
        "length (st_driver_values b) = n"
        by (simp_all add: bx bo br bd len)
      have rows': "\<forall>j. 1 \<le> j \<and> j < Suc k \<and> ?cr b j \<noteq> []
          \<longrightarrow> st_x b ! j = max (ThresholdSpec.reset (last (?cr b j))) 0
            \<and> st_order b ! j = st_order b ! (j - 1) + ThresholdSpec.delta_s (last (?cr b j))
            \<and> st_releases b ! j = 1"
        using rows by blast
      show ?thesis
        by (intro conjI) (rule lb rows' events)+
    next
      case (2 d g sel)
      let ?v = "st_x a ! (k - 1) + d * dt sc"
      have bx: "st_x b = (st_x a)[k := max (ThresholdSpec.reset sel) 0]"
        and bo: "st_order b = (st_order a)[k := st_order a ! (k - 1) + ThresholdSpec.delta_s sel]"
        and br: "st_releases b = (st_releases a)[k := 1]"
        and bd: "st_driver_values b = (st_driver_values a)[k - 1 := d]"
        and be: "st_events b = st_events a @ [release_event (tg ! k) sel ?v]"
        using 2(4) by simp_all
      have same: "?pr b j = ?pr a j" if "1 \<le> j" "j < k" for j
        using that by (simp add: bx bd)
      have here: "?pr b k = ?v"
        using k len by (simp add: bx bd)
      have cross: "?cr b k \<noteq> []" unfolding here by (rule 2(2))
      have sel: "last (?cr b k) = sel" unfolding here by (rule 2(3) [symmetric])
      have "map (?ev b) (filter (\<lambda>j. ?cr b j \<noteq> []) [1..<Suc k])
            = map (?ev b) (filter (\<lambda>j. ?cr b j \<noteq> []) [1..<k]) @ [?ev b k]"
        unfolding upt using cross by simp
      also have "map (?ev b) (filter (\<lambda>j. ?cr b j \<noteq> []) [1..<k])
                 = map (?ev a) (filter (\<lambda>j. ?cr a j \<noteq> []) [1..<k])"
      proof -
        have f: "filter (\<lambda>j. ?cr b j \<noteq> []) [1..<k] = filter (\<lambda>j. ?cr a j \<noteq> []) [1..<k]"
          by (rule filter_cong) (use same in simp_all)
        show ?thesis unfolding f by (rule map_cong) (use same in simp_all)
      qed
      also have "?ev b k = release_event (tg ! k) sel ?v"
        by (simp only: sel) (simp only: here)
      finally have events: "st_events b = map (?ev b) (filter (\<lambda>j. ?cr b j \<noteq> []) [1..<Suc k])"
        by (simp only: be evs)
      have rows: "st_x b ! j = max (ThresholdSpec.reset (last (?cr b j))) 0
          \<and> st_order b ! j = st_order b ! (j - 1) + ThresholdSpec.delta_s (last (?cr b j))
          \<and> st_releases b ! j = 1"
        if j: "1 \<le> j" "j < Suc k" "?cr b j \<noteq> []" for j
      proof (cases "j = k")
        case True
        show ?thesis
          unfolding True sel using k len by (simp add: bx bo br)
      next
        case False
        with j have jk: "j < k" by simp
        have ca: "?cr a j \<noteq> []" using j(3) same [OF j(1) jk] by simp
        have eqs: "st_x b ! j = st_x a ! j" "st_order b ! j = st_order a ! j"
          "st_order b ! (j - 1) = st_order a ! (j - 1)" "st_releases b ! j = st_releases a ! j"
          using jk j(1) by (simp_all add: bx bo br)
        show ?thesis
          unfolding same [OF j(1) jk] eqs by (rule old [OF j(1) jk ca])
      qed
      have lb: "length (st_x b) = n" "length (st_order b) = n" "length (st_releases b) = n"
        "length (st_driver_values b) = n"
        by (simp_all add: bx bo br bd len)
      have rows': "\<forall>j. 1 \<le> j \<and> j < Suc k \<and> ?cr b j \<noteq> []
          \<longrightarrow> st_x b ! j = max (ThresholdSpec.reset (last (?cr b j))) 0
            \<and> st_order b ! j = st_order b ! (j - 1) + ThresholdSpec.delta_s (last (?cr b j))
            \<and> st_releases b ! j = 1"
        using rows by blast
      show ?thesis
        by (intro conjI) (rule lb rows' events)+
    qed
  qed
  with n show ?thesis by (simp add: max_def)
qed

lemma release_event_time [simp]: "Event.time (release_event t sel v) = t"
  by (simp add: release_event_def)

lemma grid_distinct:
  assumes grid: "linspace 0 d (\<lceil>d / h\<rceil> + 1) = Inr tg"
    and n: "n = nat (\<lceil>d / h\<rceil> + 1)" and j: "j < n" and i: "i < n"
    and eq: "tg ! j = tg ! i"
  shows "j = i"
proof (cases "n \<le> 1")
  case True
  with i j show ?thesis by simp
next
  case False
  with n have "0 < \<lceil>d / h\<rceil>" by arith
  then have "0 < d / h" by (simp only: zero_less_ceiling)
  then have d: "d \<noteq> 0" by auto
  from False have pos: "real (n - 1) \<noteq> 0" by simp
  have "tg ! j = real j * (d / real (n - 1))" "tg ! i = real i * (d / real (n - 1))"
    using linspace_from_zero(2) [OF grid] i j n by simp_all
  with eq have "real j * (d / real (n - 1)) = real i * (d / real (n - 1))" by simp
  with d pos show ?thesis by simp
qed

lemma probe_run:
  "simulate_cycle probe_rng probe_scenario seed = Inr (probe_frame, probe_events)"
  by (simp add: simulate_cycle_def probe_scenario_def probe_frame_def probe_events_def
        linspace_def Let_def upt_rec step_def noisy_derivative_def driver_derivative_def
        crossed_by_def initial_arrays_def release_event_def numeral_3_eq_3 numeral_2_eq_2)

section \<open>Properties of the sample table\<close>

text \<open>
  Claim C1, as the code has it. In the table returned by \<open>simulate_cycle\<close> the accumulator
  at index 0 is \<open>initial_state\<close>, unclamped, and every later entry is at least 0; so all
  entries are at least 0 exactly when \<open>initial_state\<close> is.
\<close>

theorem accumulator_nonneg_after_start:
  assumes "simulate_cycle dr sc seed = Inr (fr, evs)"
  shows "accumulator fr ! 0 = initial_state sc
         \<and> (\<forall>i. 1 \<le> i \<and> i < length (accumulator fr) \<longrightarrow> 0 \<le> accumulator fr ! i)
         \<and> ((\<forall>i < length (accumulator fr). 0 \<le> accumulator fr ! i) \<longleftrightarrow> 0 \<le> initial_state sc)"
proof -
  from assms obtain tg s n where n: "0 < n"
    and run: "loop sc tg (sort_key ThresholdSpec.theta (thresholds sc)) [1..<n]
                (initial_arrays n (initial_state sc) (dr seed)) = Inr s"
    and fr: "accumulator fr = st_x s"
    by (rule simulate_cycle_cases) blast
  let ?P = "\<lambda>(k::nat) a. length (st_x a) = n \<and> st_x a ! 0 = initial_state sc
              \<and> (\<forall>j. 1 \<le> j \<and> j < n \<longrightarrow> 0 \<le> st_x a ! j)"
  have "?P (max 1 n) s"
  proof (rule loop_upt_induct [OF run])
    show "?P 1 (initial_arrays n (initial_state sc) (dr seed))"
      using n by (auto simp: nth_list_update)
  next
    fix k a b
    assume k: "1 \<le> k" "k < n" and a: "?P k a"
      and b: "step sc tg (sort_key ThresholdSpec.theta (thresholds sc)) k a = Inr b"
    from b obtain v where "0 \<le> v" and "st_x b = (st_x a)[k := v]"
    proof (cases rule: step_cases)
      case (1 d g)
      then show ?thesis by (intro that [of "max (st_x a ! (k - 1) + d * dt sc) 0"]) simp_all
    next
      case (2 d g sel)
      then show ?thesis by (intro that [of "max (ThresholdSpec.reset sel) 0"]) simp_all
    qed
    with k a show "?P (Suc k) b"
      by (auto simp: nth_list_update)
  qed
  then have inv: "length (st_x s) = n" "st_x s ! 0 = initial_state sc"
    "\<forall>j. 1 \<le> j \<and> j < n \<longrightarrow> 0 \<le> st_x s ! j"
    by simp_all
  have "(\<forall>i < n. 0 \<le> st_x s ! i) \<longleftrightarrow> 0 \<le> initial_state sc"
  proof
    assume "\<forall>i < n. 0 \<le> st_x s ! i"
    with n inv(2) show "0 \<le> initial_state sc" by auto
  next
    assume x0: "0 \<le> initial_state sc"
    show "\<forall>i < n. 0 \<le> st_x s ! i"
    proof (intro allI impI)
      fix i assume "i < n"
      then show "0 \<le> st_x s ! i"
        using inv(2,3) x0 by (cases i) auto
    qed
  qed
  with inv show ?thesis by (simp add: fr)
qed

theorem accumulator_nonneg_after_start_witness:
  "simulate_cycle probe_rng probe_scenario None = Inr (probe_frame, probe_events)
   \<and> accumulator probe_frame ! 0 = initial_state probe_scenario
   \<and> 0 \<le> accumulator probe_frame ! 1 \<and> 0 \<le> accumulator probe_frame ! 2"
  using probe_run [of None] accumulator_nonneg_after_start [OF probe_run [of None]]
  by (simp add: probe_frame_def)

text \<open>A negative \<open>initial_state\<close> is stored in the first sample as it is.\<close>

theorem initial_sample_negative:
  "simulate_cycle probe_rng probe_scenario None = Inr (probe_frame, probe_events)
   \<and> accumulator probe_frame ! 0 = - 1 \<and> accumulator probe_frame ! 0 < 0"
  using probe_run [of None] by (simp add: probe_frame_def)

text \<open>
  Claim C2. Let \<open>proposed\<close> be the accumulator at \<open>i - 1\<close> plus the recorded derivative
  at \<open>i - 1\<close> times \<open>dt\<close>. At every step \<open>i\<close> of a returning run where some threshold has
  \<open>theta \<le> proposed\<close>, there is a threshold \<open>sel\<close> of the scenario, reached and of the
  highest \<open>theta\<close> among those reached, such that the accumulator at \<open>i\<close> is
  \<open>max(reset, 0)\<close>, the order parameter at \<open>i\<close> is the previous one plus \<open>delta_s\<close>,
  the release flag at \<open>i\<close> is 1, and the events with the time of the step \<open>i\<close> are
  exactly one: the event with that time, with the \<open>theta\<close>, \<open>reset\<close> and \<open>delta_s\<close> of
  \<open>sel\<close>, with \<open>state_before = proposed\<close> and with \<open>state_after = reset\<close>. No other
  threshold reached in the step leaves a trace in the table or in the events.
\<close>

theorem crossing_step_fires_highest:
  assumes run: "simulate_cycle dr sc seed = Inr (fr, evs)"
    and i: "1 \<le> i" "i < length (frame.time fr)"
    and p: "proposed = accumulator fr ! (i - 1) + frame.driver fr ! (i - 1) * dt sc"
    and cross: "\<exists>th \<in> set (thresholds sc). ThresholdSpec.theta th \<le> proposed"
  shows "\<exists>sel \<in> set (thresholds sc).
           ThresholdSpec.theta sel \<le> proposed
         \<and> (\<forall>th \<in> set (thresholds sc).
               ThresholdSpec.theta th \<le> proposed
                 \<longrightarrow> ThresholdSpec.theta th \<le> ThresholdSpec.theta sel)
         \<and> accumulator fr ! i = max (ThresholdSpec.reset sel) 0
         \<and> order_parameter fr ! i = order_parameter fr ! (i - 1) + ThresholdSpec.delta_s sel
         \<and> release fr ! i = 1
         \<and> filter (\<lambda>e. Event.time e = frame.time fr ! i) evs
             = [\<lparr>Event.time = frame.time fr ! i,
                 theta = ThresholdSpec.theta sel,
                 reset = ThresholdSpec.reset sel,
                 delta_s = ThresholdSpec.delta_s sel,
                 state_before = proposed,
                 state_after = ThresholdSpec.reset sel\<rparr>]"
proof -
  let ?ths = "sort_key ThresholdSpec.theta (thresholds sc)"
  from run obtain tg s n where
    n_def: "n = nat (\<lceil>Scenario.duration sc / dt sc\<rceil> + 1)" and n: "0 < n"
    and grid: "linspace 0 (Scenario.duration sc) (\<lceil>Scenario.duration sc / dt sc\<rceil> + 1) = Inr tg"
    and loop: "loop sc tg ?ths [1..<n] (initial_arrays n (initial_state sc) (dr seed)) = Inr s"
    and fr: "frame.time fr = tg" "accumulator fr = st_x s" "order_parameter fr = st_order s"
      "release fr = st_releases s"
    and drv: "frame.driver fr = (st_driver_values s)
       [n - 1 := (if \<lceil>Scenario.duration sc / dt sc\<rceil> + 1 > 1
                  then st_driver_values s ! (n - 2) else 0)]"
    and evs: "evs = st_events s"
    by (rule simulate_cycle_cases) blast
  let ?pr = "\<lambda>j. proposed_at (dt sc) (st_x s) (st_driver_values s) j"
  let ?cr = "\<lambda>j. crossed_by ?ths (?pr j)"
  let ?ev = "\<lambda>j. release_event (tg ! j) (last (?cr j)) (?pr j)"
  let ?js = "filter (\<lambda>j. ?cr j \<noteq> []) [1..<n]"
  note inv = loop_records_crossings [OF loop n]
  from inv have rows: "\<And>j. 1 \<le> j \<Longrightarrow> j < n \<Longrightarrow> ?cr j \<noteq> []
      \<Longrightarrow> st_x s ! j = max (ThresholdSpec.reset (last (?cr j))) 0
        \<and> st_order s ! j = st_order s ! (j - 1) + ThresholdSpec.delta_s (last (?cr j))
        \<and> st_releases s ! j = 1"
    by blast
  from inv have events: "st_events s = map ?ev ?js" by blast
  have len: "length tg = n"
    using linspace_from_zero(1) [OF grid] n_def by simp
  with i fr have i_n: "i < n" by simp
  from i i_n have "frame.driver fr ! (i - 1) = st_driver_values s ! (i - 1)"
    unfolding drv by (intro nth_list_update_neq) simp
  with p fr have pi: "proposed = ?pr i" by simp
  define sel where "sel = last (?cr i)"
  from cross have ne: "?cr i \<noteq> []"
    unfolding pi by (simp only: crossed_by_sorted_nonempty)
  have srt: "sorted (map ThresholdSpec.theta ?ths)" by (rule sorted_sort_key)
  have mem: "sel \<in> set (thresholds sc)"
    using last_crossed_highest(1) [OF srt ne] by (simp add: sel_def)
  have below: "ThresholdSpec.theta sel \<le> proposed"
    using last_crossed_highest(2) [OF srt ne] by (simp add: sel_def pi)
  have top: "\<forall>th \<in> set (thresholds sc).
      ThresholdSpec.theta th \<le> proposed \<longrightarrow> ThresholdSpec.theta th \<le> ThresholdSpec.theta sel"
    using last_crossed_highest(3) [OF srt ne] by (simp add: sel_def pi)
  from rows [OF i(1) i_n ne]
  have vals: "accumulator fr ! i = max (ThresholdSpec.reset sel) 0"
    "order_parameter fr ! i = order_parameter fr ! (i - 1) + ThresholdSpec.delta_s sel"
    "release fr ! i = 1"
    by (simp_all add: fr sel_def)
  have "filter (\<lambda>e. Event.time e = tg ! i) (map ?ev ?js)
          = map ?ev (filter (\<lambda>j. tg ! j = tg ! i) ?js)"
    by (simp add: filter_map comp_def)
  also have "filter (\<lambda>j. tg ! j = tg ! i) ?js = filter (\<lambda>j. j = i) ?js"
  proof (rule filter_cong [OF refl])
    fix j assume "j \<in> set ?js"
    then have "j < n" by simp
    then show "(tg ! j = tg ! i) = (j = i)"
      using grid_distinct [OF grid n_def _ i_n, of j] by auto
  qed
  also have "\<dots> = [i]"
    using i i_n ne by (intro filter_eq_singleton) simp_all
  finally have "filter (\<lambda>e. Event.time e = frame.time fr ! i) evs
      = [\<lparr>Event.time = frame.time fr ! i,
          theta = ThresholdSpec.theta sel,
          reset = ThresholdSpec.reset sel,
          delta_s = ThresholdSpec.delta_s sel,
          state_before = proposed,
          state_after = ThresholdSpec.reset sel\<rparr>]"
    by (simp add: evs events fr sel_def pi release_event_def)
  with mem below top vals show ?thesis by blast
qed

theorem crossing_step_fires_highest_witness:
  "simulate_cycle probe_rng probe_scenario None = Inr (probe_frame, probe_events)
   \<and> accumulator probe_frame ! 1 + frame.driver probe_frame ! 1 * dt probe_scenario = 2
   \<and> ThresholdSpec.theta (thresholds probe_scenario ! 0) \<le> 2
   \<and> ThresholdSpec.theta (thresholds probe_scenario ! 1) \<le> 2
   \<and> accumulator probe_frame ! 2 = 1 / 4
   \<and> order_parameter probe_frame ! 2 = order_parameter probe_frame ! 1 + 5
   \<and> release probe_frame ! 2 = 1
   \<and> filter (\<lambda>e. Event.time e = 3) probe_events
       = [\<lparr>Event.time = 3, theta = 3 / 2, reset = 1 / 4, delta_s = 5, state_before = 2,
           state_after = 1 / 4\<rparr>]"
proof -
  have i: "(1::nat) \<le> 2" "2 < length (frame.time probe_frame)"
    by (simp_all add: probe_frame_def)
  have p: "(2::real) = accumulator probe_frame ! (2 - 1)
             + frame.driver probe_frame ! (2 - 1) * dt probe_scenario"
    by (simp add: probe_frame_def probe_scenario_def)
  have c: "\<exists>th \<in> set (thresholds probe_scenario). ThresholdSpec.theta th \<le> 2"
    by (simp add: probe_scenario_def)
  from crossing_step_fires_highest [OF probe_run [of None] i p c]
  obtain sel where sel: "sel \<in> set (thresholds probe_scenario)"
    and top: "\<forall>th \<in> set (thresholds probe_scenario).
                ThresholdSpec.theta th \<le> 2 \<longrightarrow> ThresholdSpec.theta th \<le> ThresholdSpec.theta sel"
    and rest: "accumulator probe_frame ! 2 = max (ThresholdSpec.reset sel) 0"
      "order_parameter probe_frame ! 2
         = order_parameter probe_frame ! (2 - 1) + ThresholdSpec.delta_s sel"
      "release probe_frame ! 2 = 1"
      "filter (\<lambda>e. Event.time e = frame.time probe_frame ! 2) probe_events
         = [\<lparr>Event.time = frame.time probe_frame ! 2,
             theta = ThresholdSpec.theta sel,
             reset = ThresholdSpec.reset sel,
             delta_s = ThresholdSpec.delta_s sel,
             state_before = 2,
             state_after = ThresholdSpec.reset sel\<rparr>]"
    by blast
  from top have "3 / 2 \<le> ThresholdSpec.theta sel" by (simp add: probe_scenario_def)
  with sel have which: "sel = \<lparr>ThresholdSpec.theta = 3 / 2, reset = 1 / 4, delta_s = 5\<rparr>"
    by (auto simp: probe_scenario_def)
  have t2: "frame.time probe_frame ! 2 = 3" by (simp add: probe_frame_def)
  have one: "(2::nat) - 1 = 1" by simp
  have p': "accumulator probe_frame ! 1 + frame.driver probe_frame ! 1 * dt probe_scenario = 2"
    using p unfolding one by simp
  have crossed: "ThresholdSpec.theta (thresholds probe_scenario ! 0) \<le> 2"
    "ThresholdSpec.theta (thresholds probe_scenario ! 1) \<le> 2"
    by (simp_all add: probe_scenario_def)
  from rest have "accumulator probe_frame ! 2 = 1 / 4"
    "order_parameter probe_frame ! 2 = order_parameter probe_frame ! 1 + 5"
    "release probe_frame ! 2 = 1"
    "filter (\<lambda>e. Event.time e = 3) probe_events
       = [\<lparr>Event.time = 3, theta = 3 / 2, reset = 1 / 4, delta_s = 5, state_before = 2,
           state_after = 1 / 4\<rparr>]"
    unfolding which one t2 by simp_all
  with probe_run [of None] p' crossed show ?thesis by blast
qed

text \<open>
  Claim C3. The claim asks for samples \<open>dt\<close> apart, the last interval possibly shorter:
  for \<open>dt = 2\<close> and \<open>duration = 3\<close> the times 0, 2, 3. \<open>simulate_cycle\<close> takes the
  number of samples from \<open>dt\<close> and advances the state by \<open>derivative * dt\<close> in every step,
  but it builds the time column with \<open>np.linspace\<close>, which spreads the samples evenly over
  the duration. On this input it returns the times 0, \<open>3 / 2\<close>, 3: the first of the two
  intervals is \<open>3 / 2\<close> and not \<open>dt\<close>, while the state of that step has advanced by
  \<open>1 * dt = 2\<close>.
\<close>

theorem first_interval_not_dt:
  "simulate_cycle probe_rng probe_scenario None = Inr (probe_frame, probe_events)
   \<and> 0 < dt probe_scenario \<and> 0 \<le> Scenario.duration probe_scenario
   \<and> frame.time probe_frame = [0, 3 / 2, 3]
   \<and> length (frame.time probe_frame) = 3
   \<and> frame.time probe_frame ! 1 - frame.time probe_frame ! 0 = 3 / 2
   \<and> dt probe_scenario = 2
   \<and> frame.time probe_frame ! 1 - frame.time probe_frame ! 0 \<noteq> dt probe_scenario
   \<and> frame.driver probe_frame ! 0 * dt probe_scenario = 2"
  using probe_run [of None] by (simp add: probe_frame_def probe_scenario_def)

text \<open>
  The time column in general: \<open>ceil(duration / dt) + 1\<close> samples from 0 to \<open>duration\<close>,
  every two neighbours \<open>duration / (steps - 1)\<close> apart. That distance is \<open>dt\<close> only when
  \<open>duration / dt\<close> is a whole number, so on every other input no interval of the returned
  grid is the \<open>dt\<close> that the steps integrate over.
\<close>

lemma time_grid_uniform:
  assumes "simulate_cycle dr sc seed = Inr (fr, evs)"
    and "0 < dt sc" and "0 \<le> Scenario.duration sc"
  shows "length (frame.time fr) = nat \<lceil>Scenario.duration sc / dt sc\<rceil> + 1
         \<and> frame.time fr ! 0 = 0
         \<and> last (frame.time fr) = Scenario.duration sc
         \<and> (\<forall>i. Suc i < length (frame.time fr) \<longrightarrow>
               frame.time fr ! Suc i - frame.time fr ! i
                 = Scenario.duration sc / real (length (frame.time fr) - 1)
               \<and> frame.time fr ! Suc i - frame.time fr ! i \<le> dt sc
               \<and> (frame.time fr ! Suc i - frame.time fr ! i = dt sc
                    \<longleftrightarrow> of_int \<lceil>Scenario.duration sc / dt sc\<rceil> = Scenario.duration sc / dt sc))"
proof -
  let ?D = "Scenario.duration sc"
  let ?c = "\<lceil>?D / dt sc\<rceil>"
  from assms(1) obtain tg where grid: "linspace 0 ?D (?c + 1) = Inr tg"
    and fr: "frame.time fr = tg"
    by (rule simulate_cycle_cases) blast
  from assms(2,3) have q: "0 \<le> ?D / dt sc" by simp
  then have c: "0 \<le> ?c" by (simp add: ceiling_le_iff [symmetric] le_ceiling_iff)
  define n where "n = nat (?c + 1)"
  from c have n: "n = nat ?c + 1" by (simp add: n_def nat_add_distrib)
  have len: "length tg = n"
    using linspace_from_zero(1) [OF grid] by (simp add: n_def)
  have nth: "tg ! i = real i * (?D / real (n - 1))" if "i < n" for i
    using linspace_from_zero(2) [OF grid, of i] that by (simp add: n_def)
  have first: "tg ! 0 = 0" using nth [of 0] n by simp
  have cr: "real (n - 1) = of_int ?c" using c by (simp add: n)
  have upper: "?D / dt sc \<le> real (n - 1)" unfolding cr by (rule le_of_int_ceiling)
  have final: "last tg = ?D"
  proof (cases "n = 1")
    case True
    with upper have "?D / dt sc \<le> 0" by simp
    with q have "?D / dt sc = 0" by simp
    with assms(2) have "?D = 0" by simp
    moreover from True len first have "last tg = 0"
      by (cases tg) auto
    ultimately show ?thesis by simp
  next
    case False
    with n have n2: "0 < n - 1" by simp
    have "tg \<noteq> []" using len n by auto
    then have "last tg = tg ! (n - 1)" by (simp add: last_conv_nth len)
    also have "\<dots> = real (n - 1) * (?D / real (n - 1))" using n by (intro nth) simp
    also have "\<dots> = ?D" using n2 by simp
    finally show ?thesis .
  qed
  have gaps: "tg ! Suc i - tg ! i = ?D / real (n - 1)
              \<and> tg ! Suc i - tg ! i \<le> dt sc
              \<and> (tg ! Suc i - tg ! i = dt sc \<longleftrightarrow> of_int ?c = ?D / dt sc)"
    if i: "Suc i < n" for i
  proof -
    from i have pos: "0 < real (n - 1)" by simp
    have "tg ! Suc i - tg ! i
            = real (Suc i) * (?D / real (n - 1)) - real i * (?D / real (n - 1))"
      by (simp only: nth [OF i] nth [OF Suc_lessD [OF i]])
    also have "\<dots> = (real (Suc i) - real i) * (?D / real (n - 1))"
      by (simp only: left_diff_distrib)
    also have "\<dots> = ?D / real (n - 1)" by simp
    finally have w: "tg ! Suc i - tg ! i = ?D / real (n - 1)" .
    from upper assms(2) have "?D \<le> dt sc * real (n - 1)"
      by (simp add: pos_divide_le_eq mult.commute)
    with pos have le: "?D / real (n - 1) \<le> dt sc"
      by (simp add: pos_divide_le_eq)
    have "?D / real (n - 1) = dt sc \<longleftrightarrow> ?D = dt sc * real (n - 1)"
      using pos by (simp add: field_simps)
    also have "\<dots> \<longleftrightarrow> real (n - 1) = ?D / dt sc"
      using assms(2) by (auto simp: field_simps)
    finally have "?D / real (n - 1) = dt sc \<longleftrightarrow> of_int ?c = ?D / dt sc"
      by (simp only: cr)
    with w le show ?thesis by simp
  qed
  have "length tg = nat ?c + 1" using len n by simp
  moreover have "\<forall>i. Suc i < length tg \<longrightarrow>
      tg ! Suc i - tg ! i = ?D / real (length tg - 1)
      \<and> tg ! Suc i - tg ! i \<le> dt sc
      \<and> (tg ! Suc i - tg ! i = dt sc \<longleftrightarrow> of_int ?c = ?D / dt sc)"
    unfolding len using gaps by blast
  ultimately show ?thesis
    unfolding fr using first final by blast
qed

text \<open>
  Claim C5. When every threshold of the scenario has \<open>delta_s \<ge> 0\<close>, the order parameter
  column of the returned table is non-decreasing: each entry is at least the one before.
\<close>

theorem order_parameter_monotone:
  assumes "simulate_cycle dr sc seed = Inr (fr, evs)"
    and "\<forall>th \<in> set (thresholds sc). 0 \<le> ThresholdSpec.delta_s th"
  shows "(\<forall>i. 1 \<le> i \<and> i < length (order_parameter fr)
              \<longrightarrow> order_parameter fr ! (i - 1) \<le> order_parameter fr ! i)
         \<and> sorted (order_parameter fr)"
proof -
  from assms(1) obtain tg s n where n: "0 < n"
    and run: "loop sc tg (sort_key ThresholdSpec.theta (thresholds sc)) [1..<n]
                (initial_arrays n (initial_state sc) (dr seed)) = Inr s"
    and fr: "order_parameter fr = st_order s"
    by (rule simulate_cycle_cases) blast
  let ?ths = "sort_key ThresholdSpec.theta (thresholds sc)"
  let ?P = "\<lambda>(k::nat) a. length (st_order a) = n
              \<and> (\<forall>i. Suc i < k \<longrightarrow> st_order a ! i \<le> st_order a ! Suc i)"
  have "?P (max 1 n) s"
  proof (rule loop_upt_induct [OF run])
    show "?P 1 (initial_arrays n (initial_state sc) (dr seed))"
      by simp
  next
    fix k a b
    assume k: "1 \<le> k" "k < n" and a: "?P k a" and b: "step sc tg ?ths k a = Inr b"
    from b obtain inc where inc: "0 \<le> inc"
      and upd: "st_order b = (st_order a)[k := st_order a ! (k - 1) + inc]"
    proof (cases rule: step_cases)
      case (1 d g)
      then show ?thesis by (intro that [of 0]) simp_all
    next
      case (2 d g sel)
      then have "sel \<in> set (thresholds sc)"
        using last_crossed_in_set [of ?ths] by simp
      with assms(2) have "0 \<le> ThresholdSpec.delta_s sel" by blast
      with 2 show ?thesis by (intro that [of "ThresholdSpec.delta_s sel"]) simp_all
    qed
    show "?P (Suc k) b"
    proof (intro conjI allI impI)
      show "length (st_order b) = n" using a upd by simp
    next
      fix i assume i: "Suc i < Suc k"
      show "st_order b ! i \<le> st_order b ! Suc i"
      proof (cases "Suc i = k")
        case True
        with k a inc show ?thesis by (auto simp: upd nth_list_update)
      next
        case False
        with i have "Suc i < k" by simp
        with a k show ?thesis by (simp add: upd nth_list_update)
      qed
    qed
  qed
  with n have len: "length (st_order s) = n"
    and adj: "\<forall>i. Suc i < n \<longrightarrow> st_order s ! i \<le> st_order s ! Suc i"
    by (simp_all add: max_def)
  have "sorted (st_order s)"
    unfolding sorted_iff_nth_Suc using adj len by simp
  moreover have "\<forall>i. 1 \<le> i \<and> i < n \<longrightarrow> st_order s ! (i - 1) \<le> st_order s ! i"
  proof (intro allI impI)
    fix i assume "1 \<le> i \<and> i < n"
    then show "st_order s ! (i - 1) \<le> st_order s ! i"
      using adj [rule_format, of "i - 1"] by simp
  qed
  ultimately show ?thesis by (simp add: fr len)
qed

theorem order_parameter_monotone_witness:
  "simulate_cycle probe_rng probe_scenario None = Inr (probe_frame, probe_events)
   \<and> 0 \<le> ThresholdSpec.delta_s (thresholds probe_scenario ! 0)
   \<and> 0 \<le> ThresholdSpec.delta_s (thresholds probe_scenario ! 1)
   \<and> sorted (order_parameter probe_frame)
   \<and> order_parameter probe_frame = [0, 1, 6]"
proof -
  have h: "\<forall>th \<in> set (thresholds probe_scenario). 0 \<le> ThresholdSpec.delta_s th"
    by (simp add: probe_scenario_def)
  show ?thesis
    using probe_run [of None] order_parameter_monotone [OF probe_run [of None] h]
    by (simp add: probe_frame_def probe_scenario_def)
qed

text \<open>
  Claim C10. When \<open>noise_std\<close> of the driver is 0, \<open>simulate_cycle\<close> gives the same result,
  table and events or exception, for any two seeds and any two ways of building the
  generator from them: the generator is drawn from only when \<open>noise_std > 0\<close>.
\<close>

theorem simulate_cycle_seed_independent:
  assumes "noise_std (Scenario.driver sc) = 0"
  shows "simulate_cycle dr1 sc seed1 = simulate_cycle dr2 sc seed2"
proof -
  from assms have quiet: "\<not> 0 < noise_std (Scenario.driver sc)" by simp
  have init: "initial_arrays n x0 (dr1 seed1) = (initial_arrays n x0 (dr2 seed2))\<lparr>st_rng := dr1 seed1\<rparr>"
    for n x0 by (simp add: initial_arrays_def)
  show ?thesis
    unfolding simulate_cycle_def Let_def init loop_quiet [OF quiet]
    by (simp split: sum.splits)
qed

theorem simulate_cycle_seed_independent_witness:
  "noise_std (Scenario.driver probe_scenario) = 0
   \<and> probe_rng (Some 1) \<noteq> probe_rng (Some 2)
   \<and> simulate_cycle probe_rng probe_scenario (Some 1)
       = simulate_cycle probe_rng probe_scenario (Some 2)"
proof -
  have h: "noise_std (Scenario.driver probe_scenario) = 0"
    by (simp add: probe_scenario_def)
  have "fst (probe_rng (Some 1) 0) \<noteq> fst (probe_rng (Some 2) 0)"
    by (simp add: probe_rng_def)
  then have "probe_rng (Some 1) \<noteq> probe_rng (Some 2)" by metis
  with h simulate_cycle_seed_independent [OF h, of probe_rng "Some 1" probe_rng "Some 2"]
  show ?thesis by simp
qed

section \<open>Facts about the ensemble driver\<close>

text \<open>What a member's perturbed scenario keeps of the base scenario.\<close>

lemma normal_zero: "normal g 0 = Inr (0, \<lambda>n. g (Suc n))"
  by (simp add: normal_def)

lemma jitter_get_absent: "jitter key = None \<Longrightarrow> jitter_get jitter key = 0"
  by (simp add: jitter_get_def)

lemma perturb_thresholds_spec:
  assumes "perturb_thresholds jitter ths g acc = Inr (out, g')"
  shows "\<exists>new. out = acc @ new
           \<and> map ThresholdSpec.delta_s new = map ThresholdSpec.delta_s ths
           \<and> (jitter ''theta'' = None
                \<longrightarrow> map ThresholdSpec.theta new = map ThresholdSpec.theta ths)
           \<and> (jitter ''reset'' = None
                \<longrightarrow> map ThresholdSpec.reset new = map ThresholdSpec.reset ths)"
  using assms
proof (induction ths arbitrary: g acc)
  case Nil
  then show ?case by simp
next
  case (Cons th rest)
  obtain n1 g1 where d1: "normal g (jitter_get jitter ''theta'') = Inr (n1, g1)"
  proof (cases "normal g (jitter_get jitter ''theta'')")
    case (Inl e)
    with Cons.prems show ?thesis by simp
  next
    case (Inr r)
    then show ?thesis using that [of "fst r" "snd r"] by simp
  qed
  obtain n2 g2 where d2: "normal g1 (jitter_get jitter ''reset'') = Inr (n2, g2)"
  proof (cases "normal g1 (jitter_get jitter ''reset'')")
    case (Inl e)
    with Cons.prems d1 show ?thesis by simp
  next
    case (Inr r)
    then show ?thesis using that [of "fst r" "snd r"] by simp
  qed
  from Cons.prems d1 d2
  have rec: "perturb_thresholds jitter rest g2
               (acc @ [\<lparr>ThresholdSpec.theta = ThresholdSpec.theta th * (1 + n1),
                        reset = ThresholdSpec.reset th * (1 + n2),
                        delta_s = ThresholdSpec.delta_s th\<rparr>]) = Inr (out, g')"
    by simp
  from Cons.IH [OF rec] obtain new where
    spec: "out = (acc @ [\<lparr>ThresholdSpec.theta = ThresholdSpec.theta th * (1 + n1),
                        reset = ThresholdSpec.reset th * (1 + n2),
                        delta_s = ThresholdSpec.delta_s th\<rparr>]) @ new
           \<and> map ThresholdSpec.delta_s new = map ThresholdSpec.delta_s rest
           \<and> (jitter ''theta'' = None
                \<longrightarrow> map ThresholdSpec.theta new = map ThresholdSpec.theta rest)
           \<and> (jitter ''reset'' = None
                \<longrightarrow> map ThresholdSpec.reset new = map ThresholdSpec.reset rest)"
    by (rule exE)
  note out = spec [THEN conjunct1]
    and ds = spec [THEN conjunct2, THEN conjunct1]
    and th = spec [THEN conjunct2, THEN conjunct2, THEN conjunct1]
    and rs = spec [THEN conjunct2, THEN conjunct2, THEN conjunct2]
  have n1: "n1 = 0" if "jitter ''theta'' = None"
    using d1 that by (simp add: jitter_get_absent normal_zero)
  have n2: "n2 = 0" if "jitter ''reset'' = None"
    using d2 that by (simp add: jitter_get_absent normal_zero)
  let ?t = "\<lparr>ThresholdSpec.theta = ThresholdSpec.theta th * (1 + n1),
             reset = ThresholdSpec.reset th * (1 + n2),
             delta_s = ThresholdSpec.delta_s th\<rparr>"
  have f1: "out = acc @ ?t # new" using out by simp
  have f2: "map ThresholdSpec.delta_s (?t # new) = map ThresholdSpec.delta_s (th # rest)"
    using ds by simp
  have f3: "map ThresholdSpec.theta (?t # new) = map ThresholdSpec.theta (th # rest)"
    if "jitter ''theta'' = None"
    using th n1 [OF that] that by simp
  have f4: "map ThresholdSpec.reset (?t # new) = map ThresholdSpec.reset (th # rest)"
    if "jitter ''reset'' = None"
    using rs n2 [OF that] that by simp
  show ?case
    by (intro exI [of _ "?t # new"] conjI impI) (rule f1 f2 f3 f4, assumption?)+
qed

lemma perturbed_scenario_cases:
  assumes "perturbed_scenario jitter sc index g = Inr (p, g')"
  obtains n1 g1 n2 g2 ths where
    "normal g (jitter_get jitter ''rate'') = Inr (n1, g1)"
    "normal g1 (jitter_get jitter ''leak'') = Inr (n2, g2)"
    "perturb_thresholds jitter (thresholds sc) g2 [] = Inr (ths, g')"
    "p = \<lparr>scenario_id = scenario_id sc @ ''_member'' @ str_nat index,
          label = label sc,
          description = description sc,
          dt = dt sc,
          duration = Scenario.duration sc,
          initial_state = initial_state sc,
          driver = \<lparr>type = type (Scenario.driver sc),
                     rate = (case rate (Scenario.driver sc) of None \<Rightarrow> None
                             | Some a \<Rightarrow> Some (a * (1 + n1))),
                     leak = (case leak (Scenario.driver sc) of None \<Rightarrow> None
                             | Some b \<Rightarrow> Some (b * (1 + n2))),
                     segments = segments (Scenario.driver sc),
                     noise_std = noise_std (Scenario.driver sc)\<rparr>,
          thresholds = ths\<rparr>"
proof -
  note unfold = perturbed_scenario_def Let_def sum.case prod.case
  obtain n1 g1 where d1: "normal g (jitter_get jitter ''rate'') = Inr (n1, g1)"
  proof (cases "normal g (jitter_get jitter ''rate'')")
    case (Inl e)
    with assms show ?thesis by (simp only: unfold) simp
  next
    case (Inr r)
    then show ?thesis using that [of "fst r" "snd r"] by simp
  qed
  obtain n2 g2 where d2: "normal g1 (jitter_get jitter ''leak'') = Inr (n2, g2)"
  proof (cases "normal g1 (jitter_get jitter ''leak'')")
    case (Inl e)
    with assms d1 show ?thesis by (simp only: unfold) simp
  next
    case (Inr r)
    then show ?thesis using that [of "fst r" "snd r"] by simp
  qed
  obtain ths g3 where pt: "perturb_thresholds jitter (thresholds sc) g2 [] = Inr (ths, g3)"
  proof (cases "perturb_thresholds jitter (thresholds sc) g2 []")
    case (Inl e)
    with assms d1 d2 show ?thesis by (simp only: unfold) simp
  next
    case (Inr r)
    then show ?thesis using that [of "fst r" "snd r"] by simp
  qed
  from assms d1 d2 pt
  have "Inr (\<lparr>scenario_id = scenario_id sc @ ''_member'' @ str_nat index,
          label = label sc,
          description = description sc,
          dt = dt sc,
          duration = Scenario.duration sc,
          initial_state = initial_state sc,
          driver = \<lparr>type = type (Scenario.driver sc),
                     rate = (case rate (Scenario.driver sc) of None \<Rightarrow> None
                             | Some a \<Rightarrow> Some (a * (1 + n1))),
                     leak = (case leak (Scenario.driver sc) of None \<Rightarrow> None
                             | Some b \<Rightarrow> Some (b * (1 + n2))),
                     segments = segments (Scenario.driver sc),
                     noise_std = noise_std (Scenario.driver sc)\<rparr>,
          thresholds = ths\<rparr>, g3) = (Inr (p, g') :: py_error + _)"
    by (simp only: unfold)
  then have p: "p = \<lparr>scenario_id = scenario_id sc @ ''_member'' @ str_nat index,
          label = label sc,
          description = description sc,
          dt = dt sc,
          duration = Scenario.duration sc,
          initial_state = initial_state sc,
          driver = \<lparr>type = type (Scenario.driver sc),
                     rate = (case rate (Scenario.driver sc) of None \<Rightarrow> None
                             | Some a \<Rightarrow> Some (a * (1 + n1))),
                     leak = (case leak (Scenario.driver sc) of None \<Rightarrow> None
                             | Some b \<Rightarrow> Some (b * (1 + n2))),
                     segments = segments (Scenario.driver sc),
                     noise_std = noise_std (Scenario.driver sc)\<rparr>,
          thresholds = ths\<rparr>" and g3: "g3 = g'"
    by (simp_all only: sum.inject prod.inject)
  show thesis
    by (rule that [OF d1 d2 pt [unfolded g3] p])
qed

lemma perturbed_scenario_spec:
  assumes "perturbed_scenario jitter sc index g = Inr (p, g')"
  shows "map ThresholdSpec.delta_s (thresholds p) = map ThresholdSpec.delta_s (thresholds sc)"
    and "jitter ''theta'' = None
           \<Longrightarrow> map ThresholdSpec.theta (thresholds p) = map ThresholdSpec.theta (thresholds sc)"
    and "jitter ''reset'' = None
           \<Longrightarrow> map ThresholdSpec.reset (thresholds p) = map ThresholdSpec.reset (thresholds sc)"
    and "jitter ''rate'' = None \<Longrightarrow> rate (Scenario.driver p) = rate (Scenario.driver sc)"
    and "jitter ''leak'' = None \<Longrightarrow> leak (Scenario.driver p) = leak (Scenario.driver sc)"
proof -
  from assms obtain n1 g1 n2 g2 ths where
    d1: "normal g (jitter_get jitter ''rate'') = Inr (n1, g1)"
    and d2: "normal g1 (jitter_get jitter ''leak'') = Inr (n2, g2)"
    and pt: "perturb_thresholds jitter (thresholds sc) g2 [] = Inr (ths, g')"
    and p: "p = \<lparr>scenario_id = scenario_id sc @ ''_member'' @ str_nat index,
          label = label sc,
          description = description sc,
          dt = dt sc,
          duration = Scenario.duration sc,
          initial_state = initial_state sc,
          driver = \<lparr>type = type (Scenario.driver sc),
                     rate = (case rate (Scenario.driver sc) of None \<Rightarrow> None
                             | Some a \<Rightarrow> Some (a * (1 + n1))),
                     leak = (case leak (Scenario.driver sc) of None \<Rightarrow> None
                             | Some b \<Rightarrow> Some (b * (1 + n2))),
                     segments = segments (Scenario.driver sc),
                     noise_std = noise_std (Scenario.driver sc)\<rparr>,
          thresholds = ths\<rparr>"
    by (rule perturbed_scenario_cases)
  have ths: "thresholds p = ths" by (simp add: p)
  from perturb_thresholds_spec [OF pt] obtain new where
    spec: "ths = [] @ new
           \<and> map ThresholdSpec.delta_s new = map ThresholdSpec.delta_s (thresholds sc)
           \<and> (jitter ''theta'' = None
                \<longrightarrow> map ThresholdSpec.theta new = map ThresholdSpec.theta (thresholds sc))
           \<and> (jitter ''reset'' = None
                \<longrightarrow> map ThresholdSpec.reset new = map ThresholdSpec.reset (thresholds sc))"
    by (rule exE)
  from spec have new: "new = ths" by simp
  show "map ThresholdSpec.delta_s (thresholds p) = map ThresholdSpec.delta_s (thresholds sc)"
    using spec [THEN conjunct2, THEN conjunct1] by (simp only: ths new)
  show "map ThresholdSpec.theta (thresholds p) = map ThresholdSpec.theta (thresholds sc)"
    if "jitter ''theta'' = None"
    using spec [THEN conjunct2, THEN conjunct2, THEN conjunct1, rule_format, OF that]
    by (simp only: ths new)
  show "map ThresholdSpec.reset (thresholds p) = map ThresholdSpec.reset (thresholds sc)"
    if "jitter ''reset'' = None"
    using spec [THEN conjunct2, THEN conjunct2, THEN conjunct2, rule_format, OF that]
    by (simp only: ths new)
  have n1: "n1 = 0" if "jitter ''rate'' = None"
    using d1 that by (simp add: jitter_get_absent normal_zero)
  have n2: "n2 = 0" if "jitter ''leak'' = None"
    using d2 that by (simp add: jitter_get_absent normal_zero)
  show "rate (Scenario.driver p) = rate (Scenario.driver sc)" if "jitter ''rate'' = None"
    using n1 [OF that] by (simp add: p split: option.splits)
  show "leak (Scenario.driver p) = leak (Scenario.driver sc)" if "jitter ''leak'' = None"
    using n2 [OF that] by (simp add: p split: option.splits)
qed

lemma perturbed_scenario_fields:
  assumes "perturbed_scenario jitter sc index g = Inr (p, g')"
  shows "scenario_id p = scenario_id sc @ ''_member'' @ str_nat index"
    and "label p = label sc" and "description p = description sc"
    and "dt p = dt sc" and "Scenario.duration p = Scenario.duration sc"
    and "initial_state p = initial_state sc"
    and "type (Scenario.driver p) = type (Scenario.driver sc)"
    and "segments (Scenario.driver p) = segments (Scenario.driver sc)"
    and "noise_std (Scenario.driver p) = noise_std (Scenario.driver sc)"
proof -
  from assms obtain n1 g1 n2 g2 ths where
    p: "p = \<lparr>scenario_id = scenario_id sc @ ''_member'' @ str_nat index,
          label = label sc,
          description = description sc,
          dt = dt sc,
          duration = Scenario.duration sc,
          initial_state = initial_state sc,
          driver = \<lparr>type = type (Scenario.driver sc),
                     rate = (case rate (Scenario.driver sc) of None \<Rightarrow> None
                             | Some a \<Rightarrow> Some (a * (1 + n1))),
                     leak = (case leak (Scenario.driver sc) of None \<Rightarrow> None
                             | Some b \<Rightarrow> Some (b * (1 + n2))),
                     segments = segments (Scenario.driver sc),
                     noise_std = noise_std (Scenario.driver sc)\<rparr>,
          thresholds = ths\<rparr>"
    by (rule perturbed_scenario_cases)
  show "scenario_id p = scenario_id sc @ ''_member'' @ str_nat index"
    and "label p = label sc" and "description p = description sc"
    and "dt p = dt sc" and "Scenario.duration p = Scenario.duration sc"
    and "initial_state p = initial_state sc"
    and "type (Scenario.driver p) = type (Scenario.driver sc)"
    and "segments (Scenario.driver p) = segments (Scenario.driver sc)"
    and "noise_std (Scenario.driver p) = noise_std (Scenario.driver sc)"
    unfolding p by simp_all
qed

lemma integers_bound: "fst (integers g) < 2 ^ 32 - 1"
  by (simp add: integers_def)

lemma members_spec:
  assumes "members dr jitter sc idxs g acc = Inr rs"
  shows "\<exists>new. rs = acc @ new \<and> length new = length idxs
           \<and> (\<forall>k < length idxs.
                 \<exists>p g0 g1 fr evs.
                   (k = 0 \<longrightarrow> g0 = g)
                   \<and> perturbed_scenario jitter sc (idxs ! k) g0 = Inr (p, g1)
                   \<and> simulate_cycle dr p (Some (fst (integers g1))) = Inr (fr, evs)
                   \<and> new ! k = tag_member fr (idxs ! k))"
  using assms
proof (induction idxs arbitrary: g acc)
  case Nil
  then show ?case by simp
next
  case (Cons index rest)
  obtain p g1 where ps: "perturbed_scenario jitter sc index g = Inr (p, g1)"
  proof (cases "perturbed_scenario jitter sc index g")
    case (Inl e)
    with Cons.prems show ?thesis by simp
  next
    case (Inr r)
    then show ?thesis using that [of "fst r" "snd r"] by simp
  qed
  obtain sub_seed g2 where sd: "integers g1 = (sub_seed, g2)"
    by (cases "integers g1")
  obtain fr evs where run: "simulate_cycle dr p (Some sub_seed) = Inr (fr, evs)"
  proof (cases "simulate_cycle dr p (Some sub_seed)")
    case (Inl e)
    with Cons.prems ps sd show ?thesis by simp
  next
    case (Inr r)
    then show ?thesis using that [of "fst r" "snd r"] by simp
  qed
  from sd have sub: "sub_seed = fst (integers g1)" by simp
  from Cons.prems ps sd run
  have rec: "members dr jitter sc rest g2 (acc @ [tag_member fr index]) = Inr rs"
    by simp
  from Cons.IH [OF rec] obtain new where
    spec: "rs = (acc @ [tag_member fr index]) @ new \<and> length new = length rest
           \<and> (\<forall>k < length rest.
                 \<exists>p g0 g1 fr evs.
                   (k = 0 \<longrightarrow> g0 = g2)
                   \<and> perturbed_scenario jitter sc (rest ! k) g0 = Inr (p, g1)
                   \<and> simulate_cycle dr p (Some (fst (integers g1))) = Inr (fr, evs)
                   \<and> new ! k = tag_member fr (rest ! k))"
    by (rule exE)
  note rs = spec [THEN conjunct1] and len = spec [THEN conjunct2, THEN conjunct1]
    and each = spec [THEN conjunct2, THEN conjunct2, rule_format]
  show ?case
  proof (intro exI [of _ "tag_member fr index # new"] conjI allI impI)
    show "rs = acc @ tag_member fr index # new" using rs by simp
    show "length (tag_member fr index # new) = length (index # rest)" using len by simp
    fix k assume k: "k < length (index # rest)"
    show "\<exists>p g0 g1 fr' evs.
            (k = 0 \<longrightarrow> g0 = g)
            \<and> perturbed_scenario jitter sc ((index # rest) ! k) g0 = Inr (p, g1)
            \<and> simulate_cycle dr p (Some (fst (integers g1))) = Inr (fr', evs)
            \<and> (tag_member fr index # new) ! k = tag_member fr' ((index # rest) ! k)"
    proof (cases k)
      case 0
      show ?thesis
        unfolding 0 nth_Cons_0
        by (rule exI [of _ p], rule exI [of _ g], rule exI [of _ g1],
            rule exI [of _ fr], rule exI [of _ evs], intro conjI impI)
           (rule refl, rule ps, rule run [unfolded sub], rule refl)
    next
      case (Suc j)
      with k have "j < length rest" by simp
      from each [OF this] obtain p' g0 g1' fr' evs' where
        e: "perturbed_scenario jitter sc (rest ! j) g0 = Inr (p', g1')"
        "simulate_cycle dr p' (Some (fst (integers g1'))) = Inr (fr', evs')"
        "new ! j = tag_member fr' (rest ! j)"
        by blast
      show ?thesis
        unfolding Suc nth_Cons_Suc
        by (rule exI [of _ p'], rule exI [of _ g0], rule exI [of _ g1'],
            rule exI [of _ fr'], rule exI [of _ evs'], intro conjI impI)
           (simp, rule e(1), rule e(2), rule e(3))
    qed
  qed
qed

lemma jitter_default_absent:
  assumes "\<forall>j. jitter = Some j \<longrightarrow> j key = None"
  shows "(case jitter of None \<Rightarrow> Map.empty | Some j \<Rightarrow> j) key = None"
  using assms by (cases jitter) simp_all

lemma tag_member_column: "member (tag_member fr k) = replicate (length (frame.time fr)) k"
  by (simp add: tag_member_def)

lemma tag_member_columns:
  "frame.time (tag_member fr k) = frame.time fr"
  "accumulator (tag_member fr k) = accumulator fr"
  "order_parameter (tag_member fr k) = order_parameter fr"
  "frame.driver (tag_member fr k) = frame.driver fr"
  "release (tag_member fr k) = release fr"
  by (simp_all add: tag_member_def)

lemma probe_ensemble_run:
  "simulate_ensemble probe_rng probe_scenario 2 (Some probe_jitter) (Some 7)
     = Inr [tag_member probe_member_frame 0, tag_member probe_member_frame 1]"
  by (simp add: simulate_ensemble_def members.simps perturbed_scenario_def jitter_get_def
        probe_jitter_def probe_rng_def
        normal_def integers_def Let_def upt_rec numeral_2_eq_2
        simulate_cycle_def probe_scenario_def probe_member_frame_def
        linspace_def step_def noisy_derivative_def driver_derivative_def
        crossed_by_def initial_arrays_def release_event_def numeral_3_eq_3 tag_member_def)

section \<open>The shape of an ensemble\<close>

text \<open>
  Claim C9, as the code has it. Whenever \<open>simulate_ensemble\<close> returns for a size \<open>N\<close>, it
  returns exactly \<open>N\<close> tables (none for a negative \<open>N\<close>) in member order. The table number
  \<open>k\<close> has the five columns of the table that \<open>simulate_cycle\<close> returns for the perturbed
  copy built for the index \<open>k\<close>, seeded with an integer below \<open>2**32 - 1\<close> drawn after the
  perturbations, and the column \<open>member\<close> holds \<open>k\<close> in every row. The copy has the
  identifier of the base scenario followed by \<open>_member\<close> and the index; its label,
  description, \<open>dt\<close>, \<open>duration\<close>, initial state, driver type, segments and \<open>noise_std\<close>
  are those of the base scenario; every threshold has the \<open>delta_s\<close> of the base
  scenario; and a parameter whose jitter key is absent has its base value. The first
  member draws from the generator of the top-level seed.
\<close>

theorem ensemble_shape:
  assumes "simulate_ensemble dr sc N jitter seed = Inr rs"
  shows "length rs = nat N
         \<and> (\<forall>k < nat N. \<exists>p g0 g1 fr evs.
               (k = 0 \<longrightarrow> g0 = dr seed)
               \<and> perturbed_scenario (case jitter of None \<Rightarrow> Map.empty | Some j \<Rightarrow> j) sc k g0
                   = Inr (p, g1)
               \<and> fst (integers g1) < 2 ^ 32 - 1
               \<and> simulate_cycle dr p (Some (fst (integers g1))) = Inr (fr, evs)
               \<and> frame.time (rs ! k) = frame.time fr
               \<and> accumulator (rs ! k) = accumulator fr
               \<and> order_parameter (rs ! k) = order_parameter fr
               \<and> frame.driver (rs ! k) = frame.driver fr
               \<and> release (rs ! k) = release fr
               \<and> member (rs ! k) = replicate (length (frame.time fr)) k
               \<and> scenario_id p = scenario_id sc @ ''_member'' @ str_nat k
               \<and> label p = label sc
               \<and> description p = description sc
               \<and> dt p = dt sc
               \<and> Scenario.duration p = Scenario.duration sc
               \<and> initial_state p = initial_state sc
               \<and> type (Scenario.driver p) = type (Scenario.driver sc)
               \<and> segments (Scenario.driver p) = segments (Scenario.driver sc)
               \<and> noise_std (Scenario.driver p) = noise_std (Scenario.driver sc)
               \<and> map ThresholdSpec.delta_s (thresholds p)
                   = map ThresholdSpec.delta_s (thresholds sc)
               \<and> ((\<forall>j. jitter = Some j \<longrightarrow> j ''theta'' = None)
                    \<longrightarrow> map ThresholdSpec.theta (thresholds p)
                         = map ThresholdSpec.theta (thresholds sc))
               \<and> ((\<forall>j. jitter = Some j \<longrightarrow> j ''reset'' = None)
                    \<longrightarrow> map ThresholdSpec.reset (thresholds p)
                         = map ThresholdSpec.reset (thresholds sc))
               \<and> ((\<forall>j. jitter = Some j \<longrightarrow> j ''rate'' = None)
                    \<longrightarrow> rate (Scenario.driver p) = rate (Scenario.driver sc))
               \<and> ((\<forall>j. jitter = Some j \<longrightarrow> j ''leak'' = None)
                    \<longrightarrow> leak (Scenario.driver p) = leak (Scenario.driver sc)))"
proof (intro conjI allI impI)
  let ?jit = "case jitter of None \<Rightarrow> Map.empty | Some j \<Rightarrow> j"
  from assms have run: "members dr ?jit sc [0..<nat N] (dr seed) [] = Inr rs"
    by (simp only: simulate_ensemble_def Let_def)
  from members_spec [OF run] obtain new where
    spec: "rs = [] @ new \<and> length new = length [0..<nat N]
           \<and> (\<forall>k < length [0..<nat N].
                 \<exists>p g0 g1 fr evs.
                   (k = 0 \<longrightarrow> g0 = dr seed)
                   \<and> perturbed_scenario ?jit sc ([0..<nat N] ! k) g0 = Inr (p, g1)
                   \<and> simulate_cycle dr p (Some (fst (integers g1))) = Inr (fr, evs)
                   \<and> new ! k = tag_member fr ([0..<nat N] ! k))"
    by (rule exE)
  from spec have new: "new = rs" by simp
  from spec show "length rs = nat N" by (simp add: new)
  fix k assume k: "k < nat N"
  then have "k < length [0..<nat N]" by simp
  from spec [THEN conjunct2, THEN conjunct2, rule_format, OF this]
  obtain p g0 g1 fr evs where
    first: "k = 0 \<longrightarrow> g0 = dr seed"
    and ps: "perturbed_scenario ?jit sc ([0..<nat N] ! k) g0 = Inr (p, g1)"
    and cyc: "simulate_cycle dr p (Some (fst (integers g1))) = Inr (fr, evs)"
    and tag: "new ! k = tag_member fr ([0..<nat N] ! k)"
    by blast
  from k have idx: "[0..<nat N] ! k = k" by simp
  have tag': "rs ! k = tag_member fr k" using tag by (simp only: new idx)
  note ps' = ps [unfolded idx]
  note facts = perturbed_scenario_spec [OF ps']
  note fields = perturbed_scenario_fields [OF ps']
  show "\<exists>p g0 g1 fr evs.
          (k = 0 \<longrightarrow> g0 = dr seed)
          \<and> perturbed_scenario ?jit sc k g0 = Inr (p, g1)
          \<and> fst (integers g1) < 2 ^ 32 - 1
          \<and> simulate_cycle dr p (Some (fst (integers g1))) = Inr (fr, evs)
          \<and> frame.time (rs ! k) = frame.time fr
          \<and> accumulator (rs ! k) = accumulator fr
          \<and> order_parameter (rs ! k) = order_parameter fr
          \<and> frame.driver (rs ! k) = frame.driver fr
          \<and> release (rs ! k) = release fr
          \<and> member (rs ! k) = replicate (length (frame.time fr)) k
          \<and> scenario_id p = scenario_id sc @ ''_member'' @ str_nat k
          \<and> label p = label sc
          \<and> description p = description sc
          \<and> dt p = dt sc
          \<and> Scenario.duration p = Scenario.duration sc
          \<and> initial_state p = initial_state sc
          \<and> type (Scenario.driver p) = type (Scenario.driver sc)
          \<and> segments (Scenario.driver p) = segments (Scenario.driver sc)
          \<and> noise_std (Scenario.driver p) = noise_std (Scenario.driver sc)
          \<and> map ThresholdSpec.delta_s (thresholds p) = map ThresholdSpec.delta_s (thresholds sc)
          \<and> ((\<forall>j. jitter = Some j \<longrightarrow> j ''theta'' = None)
               \<longrightarrow> map ThresholdSpec.theta (thresholds p)
                    = map ThresholdSpec.theta (thresholds sc))
          \<and> ((\<forall>j. jitter = Some j \<longrightarrow> j ''reset'' = None)
               \<longrightarrow> map ThresholdSpec.reset (thresholds p)
                    = map ThresholdSpec.reset (thresholds sc))
          \<and> ((\<forall>j. jitter = Some j \<longrightarrow> j ''rate'' = None)
               \<longrightarrow> rate (Scenario.driver p) = rate (Scenario.driver sc))
          \<and> ((\<forall>j. jitter = Some j \<longrightarrow> j ''leak'' = None)
               \<longrightarrow> leak (Scenario.driver p) = leak (Scenario.driver sc))"
  proof (rule exI [of _ p], rule exI [of _ g0], rule exI [of _ g1],
      rule exI [of _ fr], rule exI [of _ evs], intro conjI)
    show "k = 0 \<longrightarrow> g0 = dr seed" by (rule first)
    show "perturbed_scenario ?jit sc k g0 = Inr (p, g1)" by (rule ps')
    show "fst (integers g1) < 2 ^ 32 - 1" by (rule integers_bound)
    show "simulate_cycle dr p (Some (fst (integers g1))) = Inr (fr, evs)" by (rule cyc)
    show "frame.time (rs ! k) = frame.time fr" "accumulator (rs ! k) = accumulator fr"
      "order_parameter (rs ! k) = order_parameter fr" "frame.driver (rs ! k) = frame.driver fr"
      "release (rs ! k) = release fr"
      unfolding tag' by (rule tag_member_columns)+
    show "member (rs ! k) = replicate (length (frame.time fr)) k"
      unfolding tag' by (rule tag_member_column)
    show "scenario_id p = scenario_id sc @ ''_member'' @ str_nat k" by (rule fields(1))
    show "label p = label sc" by (rule fields(2))
    show "description p = description sc" by (rule fields(3))
    show "dt p = dt sc" by (rule fields(4))
    show "Scenario.duration p = Scenario.duration sc" by (rule fields(5))
    show "initial_state p = initial_state sc" by (rule fields(6))
    show "type (Scenario.driver p) = type (Scenario.driver sc)" by (rule fields(7))
    show "segments (Scenario.driver p) = segments (Scenario.driver sc)" by (rule fields(8))
    show "noise_std (Scenario.driver p) = noise_std (Scenario.driver sc)" by (rule fields(9))
    show "map ThresholdSpec.delta_s (thresholds p) = map ThresholdSpec.delta_s (thresholds sc)"
      by (rule facts(1))
    show "(\<forall>j. jitter = Some j \<longrightarrow> j ''theta'' = None)
            \<longrightarrow> map ThresholdSpec.theta (thresholds p) = map ThresholdSpec.theta (thresholds sc)"
      by (intro impI facts(2) jitter_default_absent)
    show "(\<forall>j. jitter = Some j \<longrightarrow> j ''reset'' = None)
            \<longrightarrow> map ThresholdSpec.reset (thresholds p) = map ThresholdSpec.reset (thresholds sc)"
      by (intro impI facts(3) jitter_default_absent)
    show "(\<forall>j. jitter = Some j \<longrightarrow> j ''rate'' = None)
            \<longrightarrow> rate (Scenario.driver p) = rate (Scenario.driver sc)"
      by (intro impI facts(4) jitter_default_absent)
    show "(\<forall>j. jitter = Some j \<longrightarrow> j ''leak'' = None)
            \<longrightarrow> leak (Scenario.driver p) = leak (Scenario.driver sc)"
      by (intro impI facts(5) jitter_default_absent)
  qed
qed

theorem ensemble_shape_witness:
  "simulate_ensemble probe_rng probe_scenario 2 (Some probe_jitter) (Some 7)
     = Inr [tag_member probe_member_frame 0, tag_member probe_member_frame 1]
   \<and> length [tag_member probe_member_frame 0, tag_member probe_member_frame 1] = nat 2
   \<and> probe_jitter ''theta'' = Some (3 / 7)
   \<and> probe_jitter ''reset'' = None \<and> probe_jitter ''rate'' = None
   \<and> probe_jitter ''leak'' = None
   \<and> (\<exists>p g0 g1 fr evs.
         perturbed_scenario probe_jitter probe_scenario 1 g0 = Inr (p, g1)
         \<and> simulate_cycle probe_rng p (Some (fst (integers g1))) = Inr (fr, evs)
         \<and> accumulator fr = [- 1, 1, 0]
         \<and> order_parameter fr = [0, 0, 1]
         \<and> member (tag_member probe_member_frame 1) = replicate (length (frame.time fr)) 1
         \<and> scenario_id p = ''probe_member1''
         \<and> dt p = 2
         \<and> noise_std (Scenario.driver p) = 0
         \<and> map ThresholdSpec.delta_s (thresholds p) = [5, 1]
         \<and> map ThresholdSpec.reset (thresholds p) = [1 / 4, - 1]
         \<and> rate (Scenario.driver p) = Some 1
         \<and> leak (Scenario.driver p) = None)"
proof -
  let ?rs = "[tag_member probe_member_frame 0, tag_member probe_member_frame 1]"
  have absent: "\<forall>j. Some probe_jitter = Some j \<longrightarrow> j ''reset'' = None"
    "\<forall>j. Some probe_jitter = Some j \<longrightarrow> j ''rate'' = None"
    "\<forall>j. Some probe_jitter = Some j \<longrightarrow> j ''leak'' = None"
    by (simp_all add: probe_jitter_def)
  have keys: "probe_jitter ''theta'' = Some (3 / 7)" "probe_jitter ''reset'' = None"
    "probe_jitter ''rate'' = None" "probe_jitter ''leak'' = None"
    by (simp_all add: probe_jitter_def)
  note shape = ensemble_shape [OF probe_ensemble_run]
  from shape have len: "length ?rs = nat 2" by (rule conjunct1)
  have "(1::nat) < nat 2" by simp
  from shape [THEN conjunct2, rule_format, OF this] absent
  obtain p g0 g1 fr evs where
    ps: "perturbed_scenario probe_jitter probe_scenario 1 g0 = Inr (p, g1)"
    and cyc: "simulate_cycle probe_rng p (Some (fst (integers g1))) = Inr (fr, evs)"
    and cols: "accumulator (?rs ! 1) = accumulator fr"
      "order_parameter (?rs ! 1) = order_parameter fr"
    and mem: "member (?rs ! 1) = replicate (length (frame.time fr)) 1"
    and flds: "scenario_id p = scenario_id probe_scenario @ ''_member'' @ str_nat 1"
      "dt p = dt probe_scenario"
      "noise_std (Scenario.driver p) = noise_std (Scenario.driver probe_scenario)"
      "map ThresholdSpec.delta_s (thresholds p)
         = map ThresholdSpec.delta_s (thresholds probe_scenario)"
      "map ThresholdSpec.reset (thresholds p)
         = map ThresholdSpec.reset (thresholds probe_scenario)"
      "rate (Scenario.driver p) = rate (Scenario.driver probe_scenario)"
      "leak (Scenario.driver p) = leak (Scenario.driver probe_scenario)"
    by (auto simp del: One_nat_def)
  have f1: "accumulator fr = [- 1, 1, 0]" and f2: "order_parameter fr = [0, 0, 1]"
    using cols by (simp_all add: tag_member_def probe_member_frame_def)
  have f3: "member (tag_member probe_member_frame 1) = replicate (length (frame.time fr)) 1"
    using mem by simp
  have digit: "char_of (49::nat) = CHR ''1''" by code_simp
  have f4: "scenario_id p = ''probe_member1''" and f5: "dt p = 2"
    and f6: "noise_std (Scenario.driver p) = 0"
    and f7: "map ThresholdSpec.delta_s (thresholds p) = [5, 1]"
    and f8: "map ThresholdSpec.reset (thresholds p) = [1 / 4, - 1]"
    and f9: "rate (Scenario.driver p) = Some 1" and f10: "leak (Scenario.driver p) = None"
    using flds digit by (simp_all add: probe_scenario_def)
  have member1: "\<exists>p g0 g1 fr evs.
         perturbed_scenario probe_jitter probe_scenario 1 g0 = Inr (p, g1)
         \<and> simulate_cycle probe_rng p (Some (fst (integers g1))) = Inr (fr, evs)
         \<and> accumulator fr = [- 1, 1, 0]
         \<and> order_parameter fr = [0, 0, 1]
         \<and> member (tag_member probe_member_frame 1) = replicate (length (frame.time fr)) 1
         \<and> scenario_id p = ''probe_member1''
         \<and> dt p = 2
         \<and> noise_std (Scenario.driver p) = 0
         \<and> map ThresholdSpec.delta_s (thresholds p) = [5, 1]
         \<and> map ThresholdSpec.reset (thresholds p) = [1 / 4, - 1]
         \<and> rate (Scenario.driver p) = Some 1
         \<and> leak (Scenario.driver p) = None"
    by (rule exI [of _ p], rule exI [of _ g0], rule exI [of _ g1],
        rule exI [of _ fr], rule exI [of _ evs], intro conjI)
       (rule ps cyc f1 f2 f3 f4 f5 f6 f7 f8 f9 f10)+
  show ?thesis
    by (intro conjI) (rule probe_ensemble_run len keys member1)+
qed

text \<open>
  A scenario whose driver type is not supported makes the first member's run raise, and
  the ensemble returns no table.
\<close>

theorem ensemble_fails_on_unsupported_driver:
  "simulate_ensemble probe_rng
     (probe_scenario\<lparr>Scenario.driver :=
        \<lparr>type = ''quadratic'', rate = Some 1, leak = None, segments = None,
         noise_std = 0\<rparr>\<rparr>)
     1 None (Some 7) = Inl ValueError"
  by (simp add: simulate_ensemble_def members.simps perturbed_scenario_def jitter_get_def
        normal_def integers_def Let_def
        simulate_cycle_def probe_scenario_def
        linspace_def step_def noisy_derivative_def driver_derivative_def
        initial_arrays_def upt_rec)

end
